theory Spec2Isabelle
  imports Complex_Main "HOL-Library.Multiset" "HOL-Library.Sublist" "HOL-Library.Code_Target_Numeral"
begin

section \<open>Library management server: request values\<close>

text \<open>
  The repository holds two copies of \<^verbatim>\<open>backend/server.js\<close>: the current one
  (with input validation and error responses, paired with the current front end) and
  an older, simpler one. Both are embedded; where they differ the handler takes the
  copy as an argument.
\<close>

datatype variant = Enhanced | Legacy

text \<open>
  A field of the parsed request body \<^verbatim>\<open>data = JSON.parse(body)\<close>. An absent field
  reads as \<^verbatim>\<open>undefined\<close>. \<open>JNum n\<close> is the Number of the integer \<open>n\<close> (the nearest
  double); numbers with a fraction, and nested arrays and objects as field values, are
  not modelled.
\<close>

datatype jsval = JUndefined | JNull | JBool bool | JNum int | JStr string

type_synonym body = "string \<Rightarrow> jsval"

text \<open>JavaScript truthiness, as used by \<^verbatim>\<open>!x\<close>, \<^verbatim>\<open>if (x)\<close> and \<^verbatim>\<open>x || y\<close>.\<close>

fun truthy :: "jsval \<Rightarrow> bool" where
  "truthy JUndefined = False"
| "truthy JNull = False"
| "truthy (JBool b) = b"
| "truthy (JNum n) = (n \<noteq> 0)"
| "truthy (JStr s) = (s \<noteq> [])"

definition js_or :: "jsval \<Rightarrow> jsval \<Rightarrow> jsval" where
  "js_or a b = (if truthy a then a else b)"

subsection \<open>Numbers\<close>

text \<open>
  A Number that holds an integer, or is infinite or \<^verbatim>\<open>NaN\<close>. The Number of an
  integer is the nearest double, ties to the even significand, and infinite from
  \<open>2^1024 - 2^970\<close> on.
\<close>

datatype number = NaN | Num int | PInfinity | NInfinity

fun nbits :: "nat \<Rightarrow> nat" where
  "nbits n = (if n = 0 then 0 else Suc (nbits (n div 2)))"

declare nbits.simps [simp del]

definition round_double :: "nat \<Rightarrow> nat" where
  "round_double a =
     (if a < 2 ^ 53 then a
      else let e = nbits a - 53; q = a div 2 ^ e; r = a mod 2 ^ e; h = 2 ^ (e - 1)
           in (if h < r \<or> (r = h \<and> odd q) then q + 1 else q) * 2 ^ e)"

definition to_number :: "int \<Rightarrow> number" where
  "to_number n =
     (let m = round_double (nat \<bar>n\<bar>)
      in if 2 ^ 1024 \<le> m then (if n < 0 then NInfinity else PInfinity)
         else Num (if n < 0 then - int m else int m))"

subsection \<open>Numbers as strings\<close>

text \<open>
  A string is the list of the bytes of its UTF-8 form. Decimal rendering of a natural
  number:
\<close>

definition digit_char :: "nat \<Rightarrow> char" where
  "digit_char d = char_of (48 + d)"

fun dec :: "nat \<Rightarrow> string" where
  "dec n = (if n < 10 then [digit_char n] else dec (n div 10) @ [digit_char (n mod 10)])"

declare dec.simps [simp del]

text \<open>
  \<^verbatim>\<open>Number::toString\<close> of a positive double \<open>x\<close> of at least \<open>2^53\<close>: the digits are those of
  the least \<open>k\<close>-digit \<open>s\<close> with an exponent \<open>e\<close> such that \<open>s * 10^e\<close> is read back as \<open>x\<close>,
  the nearest such \<open>s\<close> if there are several. With \<open>n = k + e\<close> digits before the decimal
  point, the string is \<open>s\<close> followed by zeros up to \<open>n = 21\<close>, and has an exponent beyond.
  Below \<open>2^53\<close> every integer is a double and the digits are its own.
\<close>

definition repr_candidates :: "nat \<Rightarrow> nat \<Rightarrow> (nat \<times> nat) list" where
  "repr_candidates x k =
     (let N = length (dec x)
      in filter (\<lambda>(s, e). 10 ^ (k - 1) \<le> s \<and> s < 10 ^ k \<and> round_double (s * 10 ^ e) = x)
           (concat (map (\<lambda>n. if n < k then []
                               else [(x div 10 ^ (n - k), n - k), (x div 10 ^ (n - k) + 1, n - k)])
                        [N, N + 1])))"

definition repr_dist :: "nat \<Rightarrow> nat \<times> nat \<Rightarrow> int" where
  "repr_dist x c = \<bar>int (fst c * 10 ^ snd c) - int x\<bar>"

definition closest :: "nat \<Rightarrow> nat \<times> nat \<Rightarrow> (nat \<times> nat) list \<Rightarrow> nat \<times> nat" where
  "closest x c cs =
     fold (\<lambda>c best. if repr_dist x c < repr_dist x best
                          \<or> (repr_dist x c = repr_dist x best \<and> even (fst c) \<and> odd (fst best))
                       then c else best) cs c"

fun shortest_repr :: "nat \<Rightarrow> nat \<Rightarrow> nat \<Rightarrow> nat \<times> nat" where
  "shortest_repr 0 k x = (x, 0)"
| "shortest_repr (Suc fuel) k x =
     (case repr_candidates x k of
        [] \<Rightarrow> shortest_repr fuel (Suc k) x
      | c # cs \<Rightarrow> closest x c cs)"

definition double_digits :: "nat \<Rightarrow> string" where
  "double_digits x =
     (if x < 2 ^ 53 then dec x
      else let (s, e) = shortest_repr 17 1 x; k = length (dec s); n = k + e
           in if n \<le> 21 then dec s @ replicate e (CHR ''0'')
              else if k = 1 then dec s @ ''e+'' @ dec (n - 1)
              else hd (dec s) # CHR ''.'' # tl (dec s) @ ''e+'' @ dec (n - 1))"

fun Number_toString :: "number \<Rightarrow> string" where
  "Number_toString NaN = ''NaN''"
| "Number_toString PInfinity = ''Infinity''"
| "Number_toString NInfinity = ''-Infinity''"
| "Number_toString (Num n) = (if n < 0 then CHR ''-'' # double_digits (nat (- n)) else double_digits (nat n))"

fun ToString :: "jsval \<Rightarrow> string" where
  "ToString JUndefined = ''undefined''"
| "ToString JNull = ''null''"
| "ToString (JBool b) = (if b then ''true'' else ''false'')"
| "ToString (JNum n) = Number_toString (to_number n)"
| "ToString (JStr s) = s"

subsection \<open>\<^verbatim>\<open>parseInt\<close>\<close>

text \<open>
  The white space and line terminators that \<^verbatim>\<open>parseInt\<close> skips, in UTF-8: tab, line feed,
  vertical tab, form feed, carriage return, space, U+00A0, U+1680, U+2000 to U+200A,
  U+2028, U+2029, U+202F, U+205F, U+3000 and U+FEFF.
\<close>

definition white_space :: "string list" where
  "white_space =
     [[CHR 0x09], [CHR 0x0A], [CHR 0x0B], [CHR 0x0C], [CHR 0x0D], [CHR 0x20],
      [CHR 0xC2, CHR 0xA0],
      [CHR 0xE1, CHR 0x9A, CHR 0x80],
      [CHR 0xE2, CHR 0x80, CHR 0x80], [CHR 0xE2, CHR 0x80, CHR 0x81],
      [CHR 0xE2, CHR 0x80, CHR 0x82], [CHR 0xE2, CHR 0x80, CHR 0x83],
      [CHR 0xE2, CHR 0x80, CHR 0x84], [CHR 0xE2, CHR 0x80, CHR 0x85],
      [CHR 0xE2, CHR 0x80, CHR 0x86], [CHR 0xE2, CHR 0x80, CHR 0x87],
      [CHR 0xE2, CHR 0x80, CHR 0x88], [CHR 0xE2, CHR 0x80, CHR 0x89],
      [CHR 0xE2, CHR 0x80, CHR 0x8A],
      [CHR 0xE2, CHR 0x80, CHR 0xA8], [CHR 0xE2, CHR 0x80, CHR 0xA9],
      [CHR 0xE2, CHR 0x80, CHR 0xAF],
      [CHR 0xE2, CHR 0x81, CHR 0x9F],
      [CHR 0xE3, CHR 0x80, CHR 0x80],
      [CHR 0xEF, CHR 0xBB, CHR 0xBF]]"

text \<open>The number of bytes of the white space character a string starts with, 0 if none.\<close>

definition ws_len :: "string \<Rightarrow> nat" where
  "ws_len s = (case find (\<lambda>w. take (length w) s = w) white_space of None \<Rightarrow> 0 | Some w \<Rightarrow> length w)"

fun skip_ws :: "string \<Rightarrow> string" where
  "skip_ws [] = []"
| "skip_ws (c # cs) = (let n = ws_len (c # cs) in if n = 0 then c # cs else skip_ws (drop (n - 1) cs))"

text \<open>The value of a character as a digit, for radix up to 36.\<close>

definition digit_val :: "char \<Rightarrow> nat option" where
  "digit_val c =
     (let k = (of_char c :: nat) in
      if 48 \<le> k \<and> k \<le> 57 then Some (k - 48)
      else if 97 \<le> k \<and> k \<le> 122 then Some (k - 87)
      else if 65 \<le> k \<and> k \<le> 90 then Some (k - 55)
      else None)"

text \<open>The decimal digits \<^verbatim>\<open>0\<close> to \<^verbatim>\<open>9\<close>.\<close>

definition dec_digit :: "char \<Rightarrow> bool" where
  "dec_digit c = (48 \<le> (of_char c :: nat) \<and> (of_char c :: nat) \<le> 57)"

definition is_digit :: "nat \<Rightarrow> char \<Rightarrow> bool" where
  "is_digit R c = (case digit_val c of None \<Rightarrow> False | Some d \<Rightarrow> d < R)"

definition digits_value :: "nat \<Rightarrow> string \<Rightarrow> nat" where
  "digits_value R Z = foldl (\<lambda>a c. a * R + the (digit_val c)) 0 Z"

text \<open>
  \<^verbatim>\<open>parseInt(x)\<close> with no radix: convert to a string, skip leading white space, read
  an optional sign, an optional \<^verbatim>\<open>0x\<close>/\<^verbatim>\<open>0X\<close> prefix (radix 16, else 10), then the
  longest run of digits. No digit gives \<^verbatim>\<open>NaN\<close>; otherwise the result is the Number
  of the integer read.
\<close>

definition parse_magnitude :: "string \<Rightarrow> nat option" where
  "parse_magnitude S1 =
     (let hex = (take 2 S1 = ''0x'' \<or> take 2 S1 = ''0X'');
          R = (if hex then 16 else 10);
          S2 = (if hex then drop 2 S1 else S1);
          Z = takeWhile (is_digit R) S2
      in if Z = [] then None else Some (digits_value R Z))"

definition parseInt :: "jsval \<Rightarrow> number" where
  "parseInt x =
     (let S = skip_ws (ToString x);
          sign = (if take 1 S = ''-'' then - 1 else (1::int));
          S1 = (if take 1 S = ''+'' \<or> take 1 S = ''-'' then drop 1 S else S)
      in case parse_magnitude S1 of None \<Rightarrow> NaN | Some m \<Rightarrow> to_number (sign * int m))"

text \<open>
  \<^verbatim>\<open>const days = parseInt(data.days) || 7;\<close>: \<^verbatim>\<open>NaN\<close> and \<^verbatim>\<open>0\<close> are falsy.
\<close>

definition loan_days :: "jsval \<Rightarrow> number" where
  "loan_days x = (let d = parseInt x in if d = NaN \<or> d = Num 0 then Num 7 else d)"

text \<open>
  \<^verbatim>\<open>parseInt(data.year) || null\<close>. In a \<open>jsval\<close>, \<open>JNum n\<close> is the Number of \<open>n\<close>, so an
  infinite one is \<open>JNum (2^1024)\<close>.
\<close>

definition parseInt_or_null :: "jsval \<Rightarrow> jsval" where
  "parseInt_or_null x =
     (case parseInt x of
        NaN \<Rightarrow> JNull
      | Num n \<Rightarrow> if n = 0 then JNull else JNum n
      | PInfinity \<Rightarrow> JNum (2 ^ 1024)
      | NInfinity \<Rightarrow> JNum (- (2 ^ 1024)))"

text \<open>The driver stores a field whose value is \<^verbatim>\<open>undefined\<close> as \<^verbatim>\<open>null\<close>.\<close>

definition bson :: "jsval \<Rightarrow> jsval" where
  "bson x = (if x = JUndefined then JNull else x)"

section \<open>Data model\<close>

text \<open>
  An \<^verbatim>\<open>ObjectId\<close> is represented by its hexadecimal string, so that
  \<^verbatim>\<open>new ObjectId(s)\<close> and \<^verbatim>\<open>.toString()\<close> are the identity. The handlers are modelled
  from the point where the identifiers of the request have been constructed; an
  identifier that is missing or empty where the handler tests it is \<open>None\<close>.
  A \<^verbatim>\<open>Date\<close> is its time value, an integer number of milliseconds.
  The servers write only the strings \<^verbatim>\<open>"Available"\<close> and \<^verbatim>\<open>"Borrowed"\<close> to a book's
  \<^verbatim>\<open>status\<close>, and no field of a request reaches it; \<^verbatim>\<open>null\<close> in \<^verbatim>\<open>borrowedBy\<close>,
  \<^verbatim>\<open>dueDate\<close> and \<^verbatim>\<open>returnedOn\<close> is \<open>None\<close>.
\<close>

type_synonym oid = string

datatype status = Available | Borrowed

record book =
  title :: jsval
  author :: jsval
  genre :: jsval
  year :: jsval
  isbn :: jsval
  cover :: jsval
  status :: status
  borrowedBy :: "oid option"
  dueDate :: "int option"
  borrowCount :: nat
  createdAt :: int
  updatedAt :: "int option"

record entry =
  e_bookId :: oid
  e_borrowedOn :: int
  e_dueDate :: int

record member =
  name :: jsval
  email :: jsval
  role :: jsval
  borrowedBooks :: "entry list"
  m_createdAt :: int

record loan =
  l_bookId :: oid
  l_memberId :: oid
  l_borrowedOn :: int
  l_dueDate :: int
  returnedOn :: "int option"
  fine :: "int option"

text \<open>
  The three collections of the circulation workflow. A collection keeps its documents
  in insertion order, each under its \<^verbatim>\<open>_id\<close>.
\<close>

record db =
  Books :: "(oid \<times> book) list"
  Members :: "(oid \<times> member) list"
  BorrowLogs :: "loan list"

definition empty_db :: db where
  "empty_db = \<lparr>Books = [], Members = [], BorrowLogs = []\<rparr>"

subsection \<open>Collection operations\<close>

definition findOne :: "(oid \<times> 'a) list \<Rightarrow> oid \<Rightarrow> 'a option" where
  "findOne c k = map_of c k"

fun updateOne :: "oid \<Rightarrow> ('a \<Rightarrow> 'a) \<Rightarrow> (oid \<times> 'a) list \<Rightarrow> (oid \<times> 'a) list" where
  "updateOne k f [] = []"
| "updateOne k f ((i, d) # c) = (if i = k then (i, f d) # c else (i, d) # updateOne k f c)"

fun deleteOne :: "oid \<Rightarrow> (oid \<times> 'a) list \<Rightarrow> (oid \<times> 'a) list" where
  "deleteOne k [] = []"
| "deleteOne k ((i, d) # c) = (if i = k then c else (i, d) # deleteOne k c)"

text \<open>The identifier of the inserted document is generated by the driver; it is an argument here.\<close>

definition insertOne :: "oid \<Rightarrow> 'a \<Rightarrow> (oid \<times> 'a) list \<Rightarrow> (oid \<times> 'a) list" where
  "insertOne k d c = c @ [(k, d)]"

text \<open>\<^verbatim>\<open>Members.findOne({ email: e })\<close>.\<close>

definition findOne_email :: "(oid \<times> member) list \<Rightarrow> jsval \<Rightarrow> (oid \<times> member) option" where
  "findOne_email c e = find (\<lambda>(i, m). email m = e) c"

text \<open>\<^verbatim>\<open>BorrowLogs.updateOne(filter, { $set: ... })\<close>: the first matching record is updated.\<close>

fun update_first :: "('a \<Rightarrow> bool) \<Rightarrow> ('a \<Rightarrow> 'a) \<Rightarrow> 'a list \<Rightarrow> 'a list" where
  "update_first P f [] = []"
| "update_first P f (x # xs) = (if P x then f x # xs else x # update_first P f xs)"

section \<open>Request handlers\<close>

text \<open>
  A response is the status code with the body's content: an error message
  (\<^verbatim>\<open>{ ok: false, msg }\<close>), or what a successful call returns. The older server answers
  some requests in plain text.
\<close>

datatype response =
    SendError nat string
  | Plain nat string
  | Created oid
  | OkMsg string
  | OkDueDate "int option"
  | OkFine int

subsection \<open>Books\<close>

fun post_books :: "variant \<Rightarrow> body \<Rightarrow> int \<Rightarrow> int \<Rightarrow> oid \<Rightarrow> db \<Rightarrow> response \<times> db" where
  "post_books Enhanced data now now' newId s =
     (if \<not> truthy (data ''title'') \<or> \<not> truthy (data ''author'')
      then (SendError 400 ''Title and author are required'', s)
      else
        let book = \<lparr>title = data ''title'',
                    author = data ''author'',
                    genre = js_or (data ''genre'') (JStr ''Unknown''),
                    year = parseInt_or_null (data ''year''),
                    isbn = js_or (data ''isbn'') JNull,
                    cover = js_or (data ''cover'') (JStr ''/uploads/default-book.jpg''),
                    status = Available,
                    borrowedBy = None,
                    dueDate = None,
                    borrowCount = 0,
                    createdAt = now,
                    updatedAt = Some now'\<rparr>
        in (Created newId, s\<lparr>Books := insertOne newId book (Books s)\<rparr>))"
| "post_books Legacy data now now' newId s =
     (let book = \<lparr>title = bson (data ''title''),
                  author = bson (data ''author''),
                  genre = bson (data ''genre''),
                  year = bson (data ''year''),
                  isbn = js_or (data ''isbn'') JNull,
                  cover = js_or (data ''cover'') (JStr ''/uploads/default-book.jpg''),
                  status = Available,
                  borrowedBy = None,
                  dueDate = None,
                  borrowCount = 0,
                  createdAt = now,
                  updatedAt = None\<rparr>
      in (Created newId, s\<lparr>Books := insertOne newId book (Books s)\<rparr>))"

text \<open>\<^verbatim>\<open>{ $set: update }\<close> on a book, one field at a time.\<close>

fun set_field :: "string \<times> jsval \<Rightarrow> book \<Rightarrow> book" where
  "set_field (k, v) b =
     (if k = ''title'' then b\<lparr>title := v\<rparr>
      else if k = ''author'' then b\<lparr>author := v\<rparr>
      else if k = ''genre'' then b\<lparr>genre := v\<rparr>
      else if k = ''year'' then b\<lparr>year := v\<rparr>
      else if k = ''isbn'' then b\<lparr>isbn := v\<rparr>
      else if k = ''cover'' then b\<lparr>cover := v\<rparr>
      else b)"

definition set_fields :: "(string \<times> jsval) list \<Rightarrow> book \<Rightarrow> book" where
  "set_fields update b = fold set_field update b"

text \<open>
  The \<^verbatim>\<open>update\<close> object of \<^verbatim>\<open>PUT /books\<close>, after
  \<^verbatim>\<open>Object.keys(update).forEach(k => update[k] === undefined && delete update[k])\<close>.
  The current server's \<^verbatim>\<open>updatedAt: new Date()\<close> is set apart, being a date.
\<close>

fun put_update :: "variant \<Rightarrow> body \<Rightarrow> (string \<times> jsval) list" where
  "put_update Enhanced data =
     filter (\<lambda>(k, v). v \<noteq> JUndefined)
       ([(''title'', data ''title''),
         (''author'', data ''author''),
         (''genre'', data ''genre''),
         (''year'', parseInt_or_null (data ''year'')),
         (''isbn'', js_or (data ''isbn'') JNull)]
        @ (if truthy (data ''cover'') then [(''cover'', data ''cover'')] else []))"
| "put_update Legacy data =
     filter (\<lambda>(k, v). v \<noteq> JUndefined)
       [(''title'', data ''title''),
        (''author'', data ''author''),
        (''genre'', data ''genre''),
        (''year'', data ''year''),
        (''isbn'', js_or (data ''isbn'') JNull),
        (''cover'', js_or (data ''cover'') JUndefined)]"

fun put_books :: "variant \<Rightarrow> oid option \<Rightarrow> body \<Rightarrow> int \<Rightarrow> db \<Rightarrow> response \<times> db" where
  "put_books Enhanced None data now s = (SendError 400 ''Book ID is required'', s)"
| "put_books Enhanced (Some i) data now s =
     (let s' = s\<lparr>Books := updateOne i (\<lambda>b. (set_fields (put_update Enhanced data) b)\<lparr>updatedAt := Some now\<rparr>) (Books s)\<rparr>
      in if findOne (Books s) i = None
         then (SendError 404 ''Book not found'', s')
         else (OkMsg ''Book updated successfully'', s'))"
| "put_books Legacy None data now s = (Plain 400 ''missing id'', s)"
| "put_books Legacy (Some i) data now s =
     (Plain 200 ''success'', s\<lparr>Books := updateOne i (set_fields (put_update Legacy data)) (Books s)\<rparr>)"

text \<open>Removing the cover file from disk is outside the model.\<close>

fun delete_books :: "variant \<Rightarrow> oid option \<Rightarrow> db \<Rightarrow> response \<times> db" where
  "delete_books Enhanced None s = (SendError 400 ''Book ID is required'', s)"
| "delete_books Enhanced (Some i) s =
     (if findOne (Books s) i = None then (SendError 404 ''Book not found'', s)
      else (OkMsg ''Book deleted successfully'', s\<lparr>Books := deleteOne i (Books s)\<rparr>))"
| "delete_books Legacy None s = (Plain 400 ''missing id'', s)"
| "delete_books Legacy (Some i) s = (Plain 200 ''success'', s\<lparr>Books := deleteOne i (Books s)\<rparr>)"

subsection \<open>Members\<close>

fun post_members :: "variant \<Rightarrow> body \<Rightarrow> int \<Rightarrow> oid \<Rightarrow> db \<Rightarrow> response \<times> db" where
  "post_members Enhanced data now newId s =
     (if \<not> truthy (data ''name'') \<or> \<not> truthy (data ''email'')
      then (SendError 400 ''Name and email are required'', s)
      else if findOne_email (Members s) (data ''email'') \<noteq> None
      then (SendError 400 ''Member with this email already exists'', s)
      else
        let member = \<lparr>name = data ''name'',
                      email = data ''email'',
                      role = js_or (data ''role'') (JStr ''student''),
                      borrowedBooks = [],
                      m_createdAt = now\<rparr>
        in (Created newId, s\<lparr>Members := insertOne newId member (Members s)\<rparr>))"
| "post_members Legacy data now newId s =
     (let member = \<lparr>name = bson (data ''name''),
                    email = bson (data ''email''),
                    role = js_or (data ''role'') (JStr ''student''),
                    borrowedBooks = [],
                    m_createdAt = now\<rparr>
      in (Created newId, s\<lparr>Members := insertOne newId member (Members s)\<rparr>))"

subsection \<open>Borrow and return\<close>

definition already_borrowed_msg :: "variant \<Rightarrow> string" where
  "already_borrowed_msg v = (case v of Enhanced \<Rightarrow> ''Book is already borrowed'' | Legacy \<Rightarrow> ''Book already borrowed'')"

definition not_borrowed_msg :: "variant \<Rightarrow> string" where
  "not_borrowed_msg v = (case v of Enhanced \<Rightarrow> ''Book is not currently borrowed'' | Legacy \<Rightarrow> ''Book not borrowed'')"

text \<open>
  \<^verbatim>\<open>new Date(t)\<close> is a valid date for a time value of at most \<open>8.64 * 10^15\<close> ms in
  magnitude, and an Invalid Date (\<open>None\<close>) beyond. In a response an Invalid Date is
  \<^verbatim>\<open>null\<close>; the driver stores it as time 0.
\<close>

definition TimeClip :: "int \<Rightarrow> int option" where
  "TimeClip t = (if \<bar>t\<bar> \<le> 8640000000000000 then Some t else None)"

definition stored_date :: "int option \<Rightarrow> int" where
  "stored_date d = (case d of None \<Rightarrow> 0 | Some t \<Rightarrow> t)"

text \<open>
  \<^verbatim>\<open>new Date(borrowedOn.getTime() + days * 24 * 60 * 60 * 1000)\<close>. The products and the sum
  are exact wherever the result is a valid date; an infinite \<^verbatim>\<open>days\<close> gives an Invalid
  Date.
\<close>

definition due_date :: "int \<Rightarrow> number \<Rightarrow> int option" where
  "due_date borrowedOn days =
     (case days of Num n \<Rightarrow> TimeClip (borrowedOn + n * 24 * 60 * 60 * 1000) | _ \<Rightarrow> None)"

text \<open>
  \<^verbatim>\<open>POST /borrow\<close>. The three writes follow one another; the older server's log record
  has no \<^verbatim>\<open>fine\<close> field.
\<close>

definition borrow :: "variant \<Rightarrow> oid \<Rightarrow> oid \<Rightarrow> jsval \<Rightarrow> int \<Rightarrow> db \<Rightarrow> response \<times> db" where
  "borrow v bId mId days_arg now s =
     (let days = loan_days days_arg in
      case (findOne (Books s) bId, findOne (Members s) mId) of
        (None, _) \<Rightarrow> (SendError 404 ''Book or member not found'', s)
      | (Some b, None) \<Rightarrow> (SendError 404 ''Book or member not found'', s)
      | (Some b, Some m) \<Rightarrow>
          if status b = Borrowed then (SendError 400 (already_borrowed_msg v), s)
          else
            let borrowedOn = now;
                due = due_date borrowedOn days;
                s1 = s\<lparr>Books := updateOne bId
                       (\<lambda>b. b\<lparr>status := Borrowed, borrowedBy := Some mId,
                               dueDate := Some (stored_date due),
                               borrowCount := borrowCount b + 1\<rparr>) (Books s)\<rparr>;
                s2 = s1\<lparr>Members := updateOne mId
                       (\<lambda>m. m\<lparr>borrowedBooks := borrowedBooks m
                                @ [\<lparr>e_bookId = bId, e_borrowedOn = borrowedOn,
                                    e_dueDate = stored_date due\<rparr>]\<rparr>)
                       (Members s1)\<rparr>;
                s3 = s2\<lparr>BorrowLogs := BorrowLogs s2
                       @ [\<lparr>l_bookId = bId, l_memberId = mId, l_borrowedOn = borrowedOn,
                           l_dueDate = stored_date due, returnedOn = None,
                           fine = (case v of Enhanced \<Rightarrow> Some 0 | Legacy \<Rightarrow> None)\<rparr>]\<rparr>
            in (OkDueDate due, s3))"

text \<open>
  \<^verbatim>\<open>Math.ceil((now - due) / (24 * 60 * 60 * 1000))\<close>: the quotient is taken exactly
  (the difference of two time values is far below the range where the rounding of
  the division could reach the next integer).
\<close>

definition daysLate :: "int \<Rightarrow> int \<Rightarrow> int" where
  "daysLate now due = \<lceil>(of_int (now - due) :: rat) / (24 * 60 * 60 * 1000)\<rceil>"

text \<open>\<^verbatim>\<open>new Date(book.dueDate)\<close>; the date of \<^verbatim>\<open>null\<close> is time 0.\<close>

definition Date_of :: "int option \<Rightarrow> int" where
  "Date_of d = (case d of None \<Rightarrow> 0 | Some t \<Rightarrow> t)"

definition compute_fine :: "int \<Rightarrow> int \<Rightarrow> int" where
  "compute_fine now due = (if now > due then daysLate now due * 5 else 0)"

definition return_book :: "variant \<Rightarrow> oid \<Rightarrow> oid \<Rightarrow> int \<Rightarrow> db \<Rightarrow> response \<times> db" where
  "return_book v bId mId now s =
     (case findOne (Books s) bId of
        None \<Rightarrow> (SendError 404 ''Book not found'', s)
      | Some b \<Rightarrow>
          if status b \<noteq> Borrowed then (SendError 400 (not_borrowed_msg v), s)
          else
            let due = Date_of (dueDate b);
                fine = compute_fine now due;
                s1 = s\<lparr>Books := updateOne bId
                       (\<lambda>b. b\<lparr>status := Available, borrowedBy := None, dueDate := None\<rparr>) (Books s)\<rparr>;
                s2 = s1\<lparr>Members := updateOne mId
                       (\<lambda>m. m\<lparr>borrowedBooks := filter (\<lambda>e. e_bookId e \<noteq> bId) (borrowedBooks m)\<rparr>)
                       (Members s1)\<rparr>;
                s3 = s2\<lparr>BorrowLogs := update_first
                       (\<lambda>l. l_bookId l = bId \<and> l_memberId l = mId \<and> returnedOn l = None)
                       (\<lambda>l. l\<lparr>returnedOn := Some now, fine := Some fine\<rparr>) (BorrowLogs s2)\<rparr>
            in (OkFine fine, s3))"

subsection \<open>Reports\<close>

text \<open>
  \<^verbatim>\<open>Books.find().sort({ borrowCount: -1 }).limit(10).toArray()\<close>: the books in
  non-increasing order of \<^verbatim>\<open>borrowCount\<close>, cut after 10. The query names no second key,
  and the order of books with equal counts is the database's: here it is the order they
  have in \<open>ties (Books s)\<close>, a rearrangement of the collection that stands for the
  database's choice. With the identity for \<open>ties\<close> they keep their insertion order.
\<close>

definition most_borrowed :: "((oid \<times> book) list \<Rightarrow> (oid \<times> book) list) \<Rightarrow> db \<Rightarrow> (oid \<times> book) list" where
  "most_borrowed ties s = take 10 (sort_key (\<lambda>(i, b). - int (borrowCount b)) (ties (Books s)))"

definition desc_borrowCount :: "(oid \<times> book) list \<Rightarrow> bool" where
  "desc_borrowCount xs = sorted_wrt (\<lambda>x y. borrowCount (snd x) \<ge> borrowCount (snd y)) xs"

subsection \<open>Sequences of requests\<close>

text \<open>
  The requests that write the \<^verbatim>\<open>Books\<close> collection, and the creation of a member. The
  other routes (update and removal of a member, signup, login, cover upload, static
  files, the reports) leave \<^verbatim>\<open>Books\<close> as it is.
\<close>

datatype request =
    POST_books body int int oid
  | PUT_books "oid option" body int
  | DELETE_books "oid option"
  | POST_members body int oid
  | POST_borrow oid oid jsval int
  | POST_return oid oid int

fun handle :: "variant \<Rightarrow> request \<Rightarrow> db \<Rightarrow> response \<times> db" where
  "handle v (POST_books data now now' newId) s = post_books v data now now' newId s"
| "handle v (PUT_books i data now) s = put_books v i data now s"
| "handle v (DELETE_books i) s = delete_books v i s"
| "handle v (POST_members data now newId) s = post_members v data now newId s"
| "handle v (POST_borrow bId mId days now) s = borrow v bId mId days now s"
| "handle v (POST_return bId mId now) s = return_book v bId mId now s"

fun run :: "variant \<Rightarrow> request list \<Rightarrow> db \<Rightarrow> db" where
  "run v [] s = s"
| "run v (r # rs) s = run v rs (snd (handle v r s))"

text \<open>The invariant of a book record stated in the data model.\<close>

definition book_inv :: "book \<Rightarrow> bool" where
  "book_inv b =
     ((status b = Borrowed \<longleftrightarrow> borrowedBy b \<noteq> None \<and> dueDate b \<noteq> None) \<and>
      (status b = Available \<longleftrightarrow> borrowedBy b = None \<and> dueDate b = None))"

definition books_ok :: "db \<Rightarrow> bool" where
  "books_ok s = list_all (\<lambda>(i, b). book_inv b) (Books s)"

section \<open>Example states\<close>

definition bk0 :: book where
  "bk0 = \<lparr>title = JStr ''Dune'', author = JStr ''Herbert'', genre = JStr ''Unknown'', year = JNull,
      isbn = JNull, cover = JStr ''/uploads/default-book.jpg'', status = Available,
      borrowedBy = None, dueDate = None, borrowCount = 0, createdAt = 0, updatedAt = Some 0\<rparr>"

definition mem0 :: member where
  "mem0 = \<lparr>name = JStr ''Alice'', email = JStr ''a@x.com'', role = JStr ''student'',
      borrowedBooks = [], m_createdAt = 0\<rparr>"

definition s_borrowed :: db where
  "s_borrowed = \<lparr>Books = [(''b1'', bk0\<lparr>status := Borrowed, borrowedBy := Some ''m1'', dueDate := Some 604800000, borrowCount := 1\<rparr>)],
      Members = [(''m1'', mem0\<lparr>borrowedBooks := [\<lparr>e_bookId = ''b1'', e_borrowedOn = 0, e_dueDate = 604800000\<rparr>]\<rparr>),
                 (''m2'', mem0\<lparr>email := JStr ''b@x.com''\<rparr>)],
      BorrowLogs = [\<lparr>l_bookId = ''b1'', l_memberId = ''m1'', l_borrowedOn = 0, l_dueDate = 604800000,
                     returnedOn = None, fine = Some 0\<rparr>]\<rparr>"

definition s_avail :: db where
  "s_avail = \<lparr>Books = [(''b1'', bk0)],
      Members = [(''m1'', mem0), (''m2'', mem0\<lparr>email := JStr ''b@x.com''\<rparr>)],
      BorrowLogs = []\<rparr>"

definition s_no_member :: db where
  "s_no_member = s_borrowed\<lparr>Members := []\<rparr>"

definition s_dune :: db where
  "s_dune = \<lparr>Books = [(''b1'', bk0\<lparr>year := JNum 1965, isbn := JStr ''9780441172719''\<rparr>)],
      Members = [(''m1'', mem0)], BorrowLogs = []\<rparr>"

definition req_title :: body where
  "req_title = (\<lambda>k. JUndefined)(''title'' := JStr ''Dune Messiah'')"

definition req_alice :: body where
  "req_alice = (\<lambda>k. JUndefined)(''name'' := JStr ''Alice B'', ''email'' := JStr ''a@x.com'')"

definition req_dune :: body where
  "req_dune = (\<lambda>k. JUndefined)(''title'' := JStr ''Dune'', ''author'' := JStr ''Herbert'')"

definition scenario :: "request list" where
  "scenario = [POST_books req_dune 0 0 ''b1'', POST_members req_alice 0 ''m1'',
               POST_borrow ''b1'' ''m1'' (JNum 7) 1000]"

section \<open>Reading the loan period\<close>


lemma of_char_digit_char: "d < 10 \<Longrightarrow> (of_char (digit_char d) :: nat) = 48 + d"
  by (simp add: digit_char_def)

lemma digit_val_digit_char: "d < 10 \<Longrightarrow> digit_val (digit_char d) = Some d"
  by (simp add: digit_val_def of_char_digit_char)

lemma dec_digit_digit_char: "d < 10 \<Longrightarrow> dec_digit (digit_char d)"
  by (simp add: dec_digit_def of_char_digit_char)

lemma dec_digits: "c \<in> set (dec n) \<Longrightarrow> dec_digit c"
proof (induction n rule: dec.induct)
  case (1 n)
  show ?case
  proof (cases "n < 10")
    case True
    with "1.prems" show ?thesis by (simp add: dec.simps [of n] dec_digit_digit_char)
  next
    case False
    with "1.prems" have "c \<in> set (dec (n div 10)) \<or> c = digit_char (n mod 10)"
      by (auto simp add: dec.simps [of n])
    then show ?thesis using "1.IH" False by (auto simp: dec_digit_digit_char)
  qed
qed

lemma dec_nonempty: "dec n \<noteq> []"
  by (subst dec.simps) simp

lemma digits_value_snoc: "digits_value R (Z @ [c]) = digits_value R Z * R + the (digit_val c)"
  by (simp add: digits_value_def)

lemma digits_value_dec: "digits_value 10 (dec n) = n"
proof (induction n rule: dec.induct)
  case (1 n)
  show ?case
  proof (cases "n < 10")
    case True
    then show ?thesis by (simp add: dec.simps [of n] digits_value_def digit_val_digit_char)
  next
    case False
    then have "digits_value 10 (dec n) = digits_value 10 (dec (n div 10)) * 10 + n mod 10"
      by (simp add: dec.simps [of n] digits_value_snoc digit_val_digit_char)
    with "1.IH" False show ?thesis by simp
  qed
qed

lemma is_digit_10: "is_digit 10 c = dec_digit c"
  by (auto simp: dec_digit_def is_digit_def digit_val_def Let_def split: if_splits)

lemma dec_digit_not_sign:
  "dec_digit c \<Longrightarrow> c \<noteq> CHR ''-'' \<and> c \<noteq> CHR ''+'' \<and> c \<noteq> CHR ''x'' \<and> c \<noteq> CHR ''X''"
  by (auto simp: dec_digit_def)

subsection \<open>Numbers below \<open>2^53\<close>\<close>

lemma nbits_lower: "0 < a \<Longrightarrow> 2 ^ (nbits a - 1) \<le> a"
proof (induction a rule: nbits.induct)
  case (1 n)
  show ?case
  proof (cases "n div 2 = 0")
    case True
    with "1.prems" have "n = 1" by presburger
    then show ?thesis by (simp add: nbits.simps [of "Suc 0"] nbits.simps [of 0])
  next
    case False
    then have ih: "2 ^ (nbits (n div 2) - 1) \<le> n div 2"
      using "1.IH" "1.prems" by simp
    have pos: "0 < nbits (n div 2)"
      using False by (simp add: nbits.simps [of "n div 2"])
    have "nbits n = Suc (nbits (n div 2))"
      using "1.prems" by (simp add: nbits.simps [of n])
    then have "(2::nat) ^ (nbits n - 1) = 2 * 2 ^ (nbits (n div 2) - 1)"
      using pos by (cases "nbits (n div 2)") simp_all
    also have "\<dots> \<le> 2 * (n div 2)" using ih by simp
    also have "\<dots> \<le> n" by simp
    finally show ?thesis .
  qed
qed

lemma round_double_small: "a < 2 ^ 53 \<Longrightarrow> round_double a = a"
  by (simp add: round_double_def)

lemma round_double_pos: "0 < a \<Longrightarrow> 0 < round_double a"
proof (cases "a < 2 ^ 53")
  case True
  assume "0 < a"
  with True show ?thesis by (simp add: round_double_small)
next
  case False
  assume a: "0 < a"
  define e where "e = nbits a - 53"
  have "(2::nat) ^ e \<le> 2 ^ (nbits a - 1)"
    unfolding e_def by (rule power_increasing) simp_all
  also have "\<dots> \<le> a" using a by (rule nbits_lower)
  finally have "2 ^ e \<le> a" .
  then have q: "0 < a div 2 ^ e"
    by (simp add: div_greater_zero_iff)
  show ?thesis
    using False q unfolding round_double_def Let_def e_def [symmetric]
    by simp
qed

lemma to_number_small: "\<bar>n\<bar> < 2 ^ 53 \<Longrightarrow> to_number n = Num n"
proof -
  assume n: "\<bar>n\<bar> < 2 ^ 53"
  then have a: "nat \<bar>n\<bar> < 2 ^ 53"
    by (simp add: nat_less_iff)
  have "(2::nat) ^ 53 \<le> 2 ^ 1024" by (rule power_increasing) simp_all
  with a have b: "\<not> 2 ^ 1024 \<le> nat \<bar>n\<bar>" by linarith
  show ?thesis
    unfolding to_number_def Let_def round_double_small [OF a]
    using b by (simp del: power_strict_increasing_iff power_increasing_iff)
qed

lemma to_number_not_NaN: "to_number n \<noteq> NaN"
  by (simp add: to_number_def Let_def)

lemma to_number_zero: "to_number n = Num 0 \<longleftrightarrow> n = 0"
proof
  assume "n = 0"
  then show "to_number n = Num 0" by (simp add: to_number_small)
next
  assume z: "to_number n = Num 0"
  show "n = 0"
  proof (rule ccontr)
    assume "n \<noteq> 0"
    then have "0 < round_double (nat \<bar>n\<bar>)" by (intro round_double_pos) simp
    with z show False
      by (auto simp: to_number_def Let_def split: if_splits)
  qed
qed

lemma ToString_JNum_small:
  "\<bar>n\<bar> < 2 ^ 53 \<Longrightarrow> ToString (JNum n) = (if n < 0 then CHR ''-'' # dec (nat (- n)) else dec (nat n))"
proof -
  assume n: "\<bar>n\<bar> < 2 ^ 53"
  then have "nat (- n) < 2 ^ 53" "nat n < 2 ^ 53"
    by (simp_all add: nat_less_iff)
  then show ?thesis
    by (simp add: to_number_small [OF n] double_digits_def)
qed


subsection \<open>White space\<close>

lemma skip_ws_none: "ws_len t = 0 \<Longrightarrow> skip_ws t = t"
  by (cases t) simp_all

lemma skip_ws_one: "w \<in> set white_space \<Longrightarrow> skip_ws (w @ t) = skip_ws t"
  unfolding white_space_def
  by (simp, elim disjE; simp add: ws_len_def white_space_def)

lemma skip_ws_concat: "set wss \<subseteq> set white_space \<Longrightarrow> skip_ws (concat wss @ t) = skip_ws t"
  by (induction wss) (simp_all add: skip_ws_one)

lemma ws_len_digit: "dec_digit c \<Longrightarrow> ws_len (c # t) = 0"
proof -
  assume "dec_digit c"
  then have "c \<notin> {CHR 0x09, CHR 0x0A, CHR 0x0B, CHR 0x0C, CHR 0x0D, CHR 0x20,
      CHR 0xC2, CHR 0xE1, CHR 0xE2, CHR 0xE3, CHR 0xEF}"
    by (auto simp: dec_digit_def)
  then show ?thesis by (simp add: ws_len_def white_space_def)
qed

lemma ws_len_sign: "ws_len (CHR ''+'' # t) = 0" "ws_len (CHR ''-'' # t) = 0"
  by (simp_all add: ws_len_def white_space_def)

subsection \<open>Reading the digits\<close>

lemma takeWhile_run:
  "\<forall>c \<in> set Z. P c \<Longrightarrow> rest = [] \<or> \<not> P (hd rest) \<Longrightarrow> takeWhile P (Z @ rest) = Z"
  by (cases rest) (simp_all add: takeWhile_append2)

lemma parse_magnitude_dec:
  assumes "Z \<noteq> []" "\<forall>c \<in> set Z. dec_digit c" "rest = [] \<or> \<not> dec_digit (hd rest)"
    and "\<not> (Z = ''0'' \<and> (take 1 rest = ''x'' \<or> take 1 rest = ''X''))"
  shows "parse_magnitude (Z @ rest) = Some (digits_value 10 Z)"
proof -
  obtain c cs where Z: "Z = c # cs" using assms(1) by (cases Z) auto
  have nohex: "take 2 (Z @ rest) \<noteq> ''0x'' \<and> take 2 (Z @ rest) \<noteq> ''0X''"
  proof (cases cs)
    case Nil
    then show ?thesis using Z assms(4) by (cases rest) auto
  next
    case (Cons d ds)
    then have d: "dec_digit d" using assms(2) Z by simp
    show ?thesis using Z Cons dec_digit_not_sign [OF d] by auto
  qed
  have tw: "takeWhile (is_digit 10) (Z @ rest) = Z"
    by (rule takeWhile_run) (use assms(2,3) in \<open>simp_all add: is_digit_10\<close>)
  define S where "S = Z @ rest"
  have "parse_magnitude S = Some (digits_value 10 Z)"
    using nohex tw assms(1) unfolding parse_magnitude_def Let_def S_def [symmetric]
    by simp
  then show ?thesis by (simp add: S_def)
qed

lemma parse_magnitude_hex:
  assumes "p = ''0x'' \<or> p = ''0X''" "\<forall>c \<in> set H. is_digit 16 c" "rest = [] \<or> \<not> is_digit 16 (hd rest)"
  shows "parse_magnitude (p @ H @ rest) = (if H = [] then None else Some (digits_value 16 H))"
proof -
  have tw: "takeWhile (is_digit 16) (H @ rest) = H"
    by (rule takeWhile_run) (use assms(2,3) in simp_all)
  define T where "T = H @ rest"
  have "parse_magnitude (p @ T) = (if H = [] then None else Some (digits_value 16 H))"
    using assms(1) tw unfolding parse_magnitude_def Let_def T_def [symmetric]
    by auto
  then show ?thesis by (simp add: T_def)
qed

lemma parse_magnitude_none:
  assumes "rest = [] \<or> \<not> dec_digit (hd rest)"
  shows "parse_magnitude rest = None"
proof (cases rest)
  case Nil
  then show ?thesis by (simp add: parse_magnitude_def)
next
  case (Cons c cs)
  with assms have c: "\<not> dec_digit c" by simp
  then have "c \<noteq> CHR ''0''" by (auto simp: dec_digit_def)
  then show ?thesis using c Cons by (simp add: parse_magnitude_def is_digit_10)
qed

lemma parseInt_string:
  assumes "set wss \<subseteq> set white_space" "sg = [] \<or> sg = ''+'' \<or> sg = ''-''"
    and "sg = [] \<longrightarrow> ws_len u = 0 \<and> take 1 u \<noteq> ''+'' \<and> take 1 u \<noteq> ''-''"
  shows "parseInt (JStr (concat wss @ sg @ u))
    = (case parse_magnitude u of None \<Rightarrow> NaN
       | Some m \<Rightarrow> to_number ((if sg = ''-'' then - 1 else 1) * int m))"
proof -
  have ws: "ws_len (sg @ u) = 0"
    using assms(2,3) by (auto simp: ws_len_sign)
  have sk: "skip_ws (ToString (JStr (concat wss @ sg @ u))) = sg @ u"
    using skip_ws_concat [OF assms(1), of "sg @ u"] skip_ws_none [OF ws] by simp
  show ?thesis
    unfolding parseInt_def Let_def sk
    using assms(2,3) by auto
qed

lemma parse_magnitude_of_dec: "parse_magnitude (dec k) = Some k"
  using parse_magnitude_dec [of "dec k" "[]"] dec_nonempty dec_digits
  by (simp add: digits_value_dec)

lemma parseInt_dec: "parseInt (JStr (dec k)) = to_number (int k)"
proof -
  obtain c cs where cz: "dec k = c # cs" using dec_nonempty [of k] by (cases "dec k") auto
  then have c: "dec_digit c" using dec_digits [of c k] by simp
  have "parseInt (JStr (concat [] @ [] @ dec k))
      = (case parse_magnitude (dec k) of None \<Rightarrow> NaN
         | Some m \<Rightarrow> to_number ((if [] = ''-'' then - 1 else 1) * int m))"
    by (rule parseInt_string) (use cz c ws_len_digit dec_digit_not_sign in auto)
  then show ?thesis by (simp add: parse_magnitude_of_dec)
qed

lemma parseInt_neg_dec: "parseInt (JStr (CHR ''-'' # dec k)) = to_number (- int k)"
proof -
  have "parseInt (JStr (concat [] @ ''-'' @ dec k))
      = (case parse_magnitude (dec k) of None \<Rightarrow> NaN
         | Some m \<Rightarrow> to_number ((if ''-'' = ''-'' then - 1 else 1) * int m))"
    by (rule parseInt_string) auto
  then show ?thesis by (simp add: parse_magnitude_of_dec)
qed

lemma parseInt_JNum: "\<bar>n\<bar> < 2 ^ 53 \<Longrightarrow> parseInt (JNum n) = Num n"
proof -
  assume n: "\<bar>n\<bar> < 2 ^ 53"
  show ?thesis
  proof (cases "n < 0")
    case True
    then have "parseInt (JNum n) = parseInt (JStr (CHR ''-'' # dec (nat (- n))))"
      using ToString_JNum_small [OF n] by (simp add: parseInt_def)
    then show ?thesis
      using True by (simp add: parseInt_neg_dec to_number_small [OF n])
  next
    case False
    then have "parseInt (JNum n) = parseInt (JStr (dec (nat n)))"
      using ToString_JNum_small [OF n] by (simp add: parseInt_def)
    then show ?thesis
      using False by (simp add: parseInt_dec to_number_small [OF n])
  qed
qed

lemma parseInt_undefined: "parseInt JUndefined = NaN"
  using parseInt_string [of "[]" "[]" "''undefined''"] parse_magnitude_none [of "''undefined''"]
  by (simp add: ws_len_def white_space_def dec_digit_def parseInt_def)

lemma parseInt_null: "parseInt JNull = NaN"
  using parseInt_string [of "[]" "[]" "''null''"] parse_magnitude_none [of "''null''"]
  by (simp add: ws_len_def white_space_def dec_digit_def parseInt_def)

lemma parseInt_bool: "parseInt (JBool b) = NaN"
  using parseInt_string [of "[]" "[]" "''true''"] parse_magnitude_none [of "''true''"]
    parseInt_string [of "[]" "[]" "''false''"] parse_magnitude_none [of "''false''"]
  by (cases b) (simp_all add: ws_len_def white_space_def dec_digit_def parseInt_def)

lemma loan_days_of_number:
  "loan_days x = (if parseInt x = NaN \<or> parseInt x = Num 0 then Num 7 else parseInt x)"
  by (simp add: loan_days_def Let_def)

lemma loan_days_JNum: "\<bar>n\<bar> < 2 ^ 53 \<Longrightarrow> loan_days (JNum n) = (if n = 0 then Num 7 else Num n)"
  by (simp add: loan_days_of_number parseInt_JNum)


lemma loan_days_to_number:
  "loan_days x = (if k = 0 then Num 7 else to_number (sg * int k))"
  if "parseInt x = to_number (sg * int k)" "sg = 1 \<or> sg = - 1" for sg :: int
proof -
  have "to_number (sg * int k) = Num 0 \<longleftrightarrow> k = 0"
    using that(2) by (auto simp: to_number_zero)
  then show ?thesis
    using that(1) by (auto simp: loan_days_of_number to_number_not_NaN)
qed

lemma skip_ws_split: "\<exists>wss. set wss \<subseteq> set white_space \<and> s = concat wss @ skip_ws s"
proof (induction s rule: skip_ws.induct)
  case 1
  show ?case by (rule exI [of _ "[]"]) simp
next
  case (2 c cs)
  show ?case
  proof (cases "ws_len (c # cs) = 0")
    case True
    then show ?thesis by (intro exI [of _ "[]"]) simp
  next
    case False
    then obtain w where w: "find (\<lambda>w. take (length w) (c # cs) = w) white_space = Some w"
      and n: "ws_len (c # cs) = length w"
      by (auto simp: ws_len_def split: option.splits)
    from w have win: "w \<in> set white_space" and pre: "take (length w) (c # cs) = w"
      by (auto simp: find_Some_iff)
    from False n have "0 < length w" by simp
    then have dr: "drop (length w - 1) cs = drop (length w) (c # cs)"
      by (cases "length w") simp_all
    obtain wss where wss: "set wss \<subseteq> set white_space"
      "drop (length w - 1) cs = concat wss @ skip_ws (drop (length w - 1) cs)"
      using "2.IH" [OF refl] False n by auto
    have sk: "skip_ws (c # cs) = skip_ws (drop (length w - 1) cs)"
      using False n by (simp add: Let_def)
    have "c # cs = w @ drop (length w) (c # cs)"
      using pre append_take_drop_id [of "length w" "c # cs"] by simp
    also have "\<dots> = concat (w # wss) @ skip_ws (c # cs)"
      using wss(2) dr sk by simp
    finally show ?thesis
      using win wss(1) by (intro exI [of _ "w # wss"]) simp
  qed
qed

lemma skip_ws_idem: "ws_len (skip_ws s) = 0"
proof (induction s rule: skip_ws.induct)
  case 1
  show ?case by (simp add: ws_len_def white_space_def)
next
  case (2 c cs)
  then show ?case by (cases "ws_len (c # cs) = 0") (simp_all add: Let_def)
qed

text \<open>Every string has one of the three forms of the theorem below.\<close>

lemma string_forms:
  "\<exists>wss sg u. s = concat wss @ sg @ u \<and> set wss \<subseteq> set white_space
      \<and> (sg = [] \<or> sg = ''+'' \<or> sg = ''-'')
      \<and> (sg = [] \<longrightarrow> ws_len u = 0 \<and> take 1 u \<noteq> ''+'' \<and> take 1 u \<noteq> ''-'')
      \<and> ((u = [] \<or> \<not> dec_digit (hd u))
          \<or> (\<exists>p H rest. u = p @ H @ rest \<and> (p = ''0x'' \<or> p = ''0X'')
                \<and> (\<forall>c \<in> set H. is_digit 16 c) \<and> (rest = [] \<or> \<not> is_digit 16 (hd rest)))
          \<or> (\<exists>Z rest. u = Z @ rest \<and> Z \<noteq> [] \<and> (\<forall>c \<in> set Z. dec_digit c)
                \<and> (rest = [] \<or> \<not> dec_digit (hd rest))
                \<and> \<not> (Z = ''0'' \<and> (take 1 rest = ''x'' \<or> take 1 rest = ''X''))))"
proof -
  obtain wss where wss: "set wss \<subseteq> set white_space" "s = concat wss @ skip_ws s"
    using skip_ws_split by blast
  define t where "t = skip_ws s"
  have t0: "ws_len t = 0" unfolding t_def by (rule skip_ws_idem)
  define sg where "sg = (if take 1 t = ''+'' \<or> take 1 t = ''-'' then take 1 t else [])"
  define u where "u = (if take 1 t = ''+'' \<or> take 1 t = ''-'' then drop 1 t else t)"
  have tu: "t = sg @ u" by (simp add: sg_def u_def)
  have sg: "sg = [] \<or> sg = ''+'' \<or> sg = ''-''" by (auto simp: sg_def)
  have u0: "sg = [] \<longrightarrow> ws_len u = 0 \<and> take 1 u \<noteq> ''+'' \<and> take 1 u \<noteq> ''-''"
    using t0 by (auto simp: sg_def u_def)
  have form: "(u = [] \<or> \<not> dec_digit (hd u))
      \<or> (\<exists>p H rest. u = p @ H @ rest \<and> (p = ''0x'' \<or> p = ''0X'')
            \<and> (\<forall>c \<in> set H. is_digit 16 c) \<and> (rest = [] \<or> \<not> is_digit 16 (hd rest)))
      \<or> (\<exists>Z rest. u = Z @ rest \<and> Z \<noteq> [] \<and> (\<forall>c \<in> set Z. dec_digit c)
            \<and> (rest = [] \<or> \<not> dec_digit (hd rest))
            \<and> \<not> (Z = ''0'' \<and> (take 1 rest = ''x'' \<or> take 1 rest = ''X'')))"
  proof (cases "u = [] \<or> \<not> dec_digit (hd u)")
    case True
    then show ?thesis by blast
  next
    case False
    then have ne: "u \<noteq> []" and d: "dec_digit (hd u)" by auto
    show ?thesis
    proof (cases "take 2 u = ''0x'' \<or> take 2 u = ''0X''")
      case True
      define v where "v = drop 2 u"
      have "u = take 2 u @ takeWhile (is_digit 16) v @ dropWhile (is_digit 16) v"
        by (simp add: v_def)
      moreover have "\<forall>c \<in> set (takeWhile (is_digit 16) v). is_digit 16 c"
        by (auto dest: set_takeWhileD)
      moreover have "dropWhile (is_digit 16) v = [] \<or> \<not> is_digit 16 (hd (dropWhile (is_digit 16) v))"
        using hd_dropWhile [of "is_digit 16" v] by blast
      ultimately show ?thesis using True by blast
    next
      case False
      define Z where "Z = takeWhile dec_digit u"
      define rest where "rest = dropWhile dec_digit u"
      have uz: "u = Z @ rest" by (simp add: Z_def rest_def)
      have zne: "Z \<noteq> []" using ne d by (cases u) (simp_all add: Z_def)
      have zd: "\<forall>c \<in> set Z. dec_digit c" by (auto simp: Z_def dest: set_takeWhileD)
      have rd: "rest = [] \<or> \<not> dec_digit (hd rest)"
        using hd_dropWhile [of dec_digit u] by (auto simp: rest_def)
      have nh: "\<not> (Z = ''0'' \<and> (take 1 rest = ''x'' \<or> take 1 rest = ''X''))"
      proof
        assume a: "Z = ''0'' \<and> (take 1 rest = ''x'' \<or> take 1 rest = ''X'')"
        then have "take 2 u = ''0x'' \<or> take 2 u = ''0X''"
          unfolding uz by (cases rest) auto
        with False show False by simp
      qed
      show ?thesis using uz zne zd rd nh by blast
    qed
  qed
  have "s = concat wss @ sg @ u" using wss(2) tu by (simp add: t_def)
  then show ?thesis using wss(1) sg u0 form by blast
qed

text \<open>
  Claim C3, as the code has it. The loan period is \<^verbatim>\<open>parseInt(data.days) || 7\<close>. It is
  7 when the argument is absent, \<^verbatim>\<open>null\<close> or a boolean. A number below \<open>2^53\<close> in magnitude
  is the period itself, 7 if it is 0. A string is read after its leading white space
  \<open>wss\<close> and an optional sign \<open>sg\<close>, in one of three forms (every string has one, by
  \<open>string_forms\<close>): with no decimal digit next the period is 7; with decimal digits
  \<open>Z\<close> next, or hexadecimal digits \<open>H\<close> after \<^verbatim>\<open>0x\<close>, it is the Number of the integer they
  spell, negated after a minus sign, whatever follows the digits, and 7 if that integer
  is 0 or \<open>H\<close> is empty. So every integer other than 0 is used as it is, a negative one
  included; the Number of an integer below \<open>2^53\<close> in magnitude is that integer.
\<close>

theorem loan_days_cases:
  "loan_days JUndefined = Num 7 \<and> loan_days JNull = Num 7 \<and> loan_days (JBool b) = Num 7
   \<and> (\<bar>n\<bar> < 2 ^ 53 \<longrightarrow> loan_days (JNum n) = (if n = 0 then Num 7 else Num n))
   \<and> (set wss \<subseteq> set white_space \<and> (sg = [] \<or> sg = ''+'' \<or> sg = ''-'') \<longrightarrow>
        ((rest = [] \<or> \<not> dec_digit (hd rest))
          \<and> (sg = [] \<longrightarrow> ws_len rest = 0 \<and> take 1 rest \<noteq> ''+'' \<and> take 1 rest \<noteq> ''-'')
          \<longrightarrow> loan_days (JStr (concat wss @ sg @ rest)) = Num 7)
      \<and> (Z \<noteq> [] \<and> (\<forall>c \<in> set Z. dec_digit c) \<and> (rest = [] \<or> \<not> dec_digit (hd rest))
          \<and> \<not> (Z = ''0'' \<and> (take 1 rest = ''x'' \<or> take 1 rest = ''X''))
          \<longrightarrow> loan_days (JStr (concat wss @ sg @ Z @ rest))
              = (if digits_value 10 Z = 0 then Num 7
                 else to_number ((if sg = ''-'' then - 1 else 1) * int (digits_value 10 Z))))
      \<and> ((p = ''0x'' \<or> p = ''0X'') \<and> (\<forall>c \<in> set H. is_digit 16 c)
          \<and> (rest = [] \<or> \<not> is_digit 16 (hd rest))
          \<longrightarrow> loan_days (JStr (concat wss @ sg @ p @ H @ rest))
              = (if H = [] \<or> digits_value 16 H = 0 then Num 7
                 else to_number ((if sg = ''-'' then - 1 else 1) * int (digits_value 16 H)))))
   \<and> loan_days (JStr (dec k)) = (if k = 0 then Num 7 else to_number (int k))
   \<and> loan_days (JStr (CHR ''-'' # dec k)) = (if k = 0 then Num 7 else to_number (- int k))
   \<and> (\<bar>n\<bar> < 2 ^ 53 \<longrightarrow> to_number n = Num n)"
proof -
  let ?sgn = "if sg = ''-'' then - 1 else (1::int)"
  have 1: "loan_days JUndefined = Num 7" "loan_days JNull = Num 7" "loan_days (JBool b) = Num 7"
    by (simp_all add: loan_days_of_number parseInt_undefined parseInt_null parseInt_bool)
  have 2: "loan_days (JNum n) = (if n = 0 then Num 7 else Num n)" if "\<bar>n\<bar> < 2 ^ 53"
    using that by (rule loan_days_JNum)
  have 3: "loan_days (JStr (concat wss @ sg @ rest)) = Num 7"
    if "set wss \<subseteq> set white_space" "sg = [] \<or> sg = ''+'' \<or> sg = ''-''"
      "rest = [] \<or> \<not> dec_digit (hd rest)"
      "sg = [] \<longrightarrow> ws_len rest = 0 \<and> take 1 rest \<noteq> ''+'' \<and> take 1 rest \<noteq> ''-''"
    using parseInt_string [OF that(1,2,4)] parse_magnitude_none [OF that(3)]
    by (simp add: loan_days_of_number)
  have 4: "loan_days (JStr (concat wss @ sg @ Z @ rest))
      = (if digits_value 10 Z = 0 then Num 7 else to_number (?sgn * int (digits_value 10 Z)))"
    if "set wss \<subseteq> set white_space" "sg = [] \<or> sg = ''+'' \<or> sg = ''-''"
      "Z \<noteq> []" "\<forall>c \<in> set Z. dec_digit c" "rest = [] \<or> \<not> dec_digit (hd rest)"
      "\<not> (Z = ''0'' \<and> (take 1 rest = ''x'' \<or> take 1 rest = ''X''))"
  proof -
    note h = that
    obtain c cs where cz: "Z = c # cs" using h(3) by (cases Z) auto
    then have c: "dec_digit c" using h(4) by simp
    have u: "sg = [] \<longrightarrow> ws_len (Z @ rest) = 0 \<and> take 1 (Z @ rest) \<noteq> ''+'' \<and> take 1 (Z @ rest) \<noteq> ''-''"
      using cz ws_len_digit [OF c] dec_digit_not_sign [OF c] by simp
    have "parseInt (JStr (concat wss @ sg @ Z @ rest)) = to_number (?sgn * int (digits_value 10 Z))"
      using parseInt_string [OF h(1,2) u] parse_magnitude_dec [OF h(3,4,5,6)] by simp
    then show ?thesis by (rule loan_days_to_number) simp
  qed
  have 5: "loan_days (JStr (concat wss @ sg @ p @ H @ rest))
      = (if H = [] \<or> digits_value 16 H = 0 then Num 7 else to_number (?sgn * int (digits_value 16 H)))"
    if "set wss \<subseteq> set white_space" "sg = [] \<or> sg = ''+'' \<or> sg = ''-''"
      "p = ''0x'' \<or> p = ''0X''" "\<forall>c \<in> set H. is_digit 16 c" "rest = [] \<or> \<not> is_digit 16 (hd rest)"
  proof -
    note h = that
    have u: "sg = [] \<longrightarrow> ws_len (p @ H @ rest) = 0 \<and> take 1 (p @ H @ rest) \<noteq> ''+''
        \<and> take 1 (p @ H @ rest) \<noteq> ''-''"
      using h(3) by (auto simp: ws_len_def white_space_def)
    have m: "parse_magnitude (p @ H @ rest) = (if H = [] then None else Some (digits_value 16 H))"
      by (rule parse_magnitude_hex [OF h(3,4,5)])
    show ?thesis
    proof (cases "H = []")
      case True
      then show ?thesis
        using parseInt_string [OF h(1,2) u] m by (simp add: loan_days_of_number)
    next
      case False
      then have "parseInt (JStr (concat wss @ sg @ p @ H @ rest)) = to_number (?sgn * int (digits_value 16 H))"
        using parseInt_string [OF h(1,2) u] m by simp
      then have "loan_days (JStr (concat wss @ sg @ p @ H @ rest))
          = (if digits_value 16 H = 0 then Num 7 else to_number (?sgn * int (digits_value 16 H)))"
        by (rule loan_days_to_number) simp
      then show ?thesis using False by simp
    qed
  qed
  have 6: "loan_days (JStr (dec k)) = (if k = 0 then Num 7 else to_number (int k))"
    using loan_days_to_number [of "JStr (dec k)" 1 k] by (simp add: parseInt_dec)
  have 7: "loan_days (JStr (CHR ''-'' # dec k)) = (if k = 0 then Num 7 else to_number (- int k))"
    using loan_days_to_number [of "JStr (CHR ''-'' # dec k)" "- 1" k] by (simp add: parseInt_neg_dec)
  have 8: "to_number n = Num n" if "\<bar>n\<bar> < 2 ^ 53"
    using that by (rule to_number_small)
  show ?thesis
    by (intro conjI impI; (elim conjE)?) (rule 1 2 3 4 5 6 7 8; assumption)+
qed


text \<open>The cases of C3 at concrete arguments.\<close>

theorem loan_days_cases_witness:
  "loan_days (JStr '' 14'') = Num 14 \<and> loan_days (JStr ''+5'') = Num 5
   \<and> loan_days (JStr ''14 days'') = Num 14 \<and> loan_days (JStr ''0x1A'') = Num 26
   \<and> loan_days (JStr ([CHR 0xC2, CHR 0xA0] @ ''14'')) = Num 14
   \<and> loan_days (JStr ''-3'') = Num (- 3)
   \<and> loan_days (JStr ''-abc'') = Num 7 \<and> loan_days (JStr ''  '') = Num 7
   \<and> loan_days (JStr ''abc'') = Num 7 \<and> loan_days (JStr ''0'') = Num 7
   \<and> loan_days (JNum 0) = Num 7 \<and> loan_days (JNum 14) = Num 14
   \<and> loan_days (JNum (- 3)) = Num (- 3)"
proof -
  have n: "to_number 14 = Num 14" "to_number 5 = Num 5" "to_number 26 = Num 26"
    "to_number (- 3) = Num (- 3)"
    using loan_days_cases [where n = 14] loan_days_cases [where n = 5]
      loan_days_cases [where n = 26] loan_days_cases [where n = "- 3"]
    by simp_all
  have e1: "loan_days (JStr '' 14'') = Num 14"
    using loan_days_cases [where wss = "[[CHR 0x20]]" and sg = "[]" and Z = "''14''" and rest = "[]"]
    by (simp add: n white_space_def dec_digit_def digits_value_def digit_val_def)
  have e2: "loan_days (JStr ''+5'') = Num 5"
    using loan_days_cases [where wss = "[]" and sg = "''+''" and Z = "''5''" and rest = "[]"]
    by (simp add: n dec_digit_def digits_value_def digit_val_def)
  have e3: "loan_days (JStr ''14 days'') = Num 14"
    using loan_days_cases [where wss = "[]" and sg = "[]" and Z = "''14''" and rest = "'' days''"]
    by (simp add: n dec_digit_def digits_value_def digit_val_def)
  have e4: "loan_days (JStr ''0x1A'') = Num 26"
    using loan_days_cases [where wss = "[]" and sg = "[]" and p = "''0x''" and H = "''1A''" and rest = "[]"]
    by (simp add: n is_digit_def digits_value_def digit_val_def)
  have e5: "loan_days (JStr ([CHR 0xC2, CHR 0xA0] @ ''14'')) = Num 14"
    using loan_days_cases [where wss = "[[CHR 0xC2, CHR 0xA0]]" and sg = "[]" and Z = "''14''" and rest = "[]"]
    by (simp add: n white_space_def dec_digit_def digits_value_def digit_val_def)
  have e6: "loan_days (JStr ''-3'') = Num (- 3)"
    using loan_days_cases [where wss = "[]" and sg = "''-''" and Z = "''3''" and rest = "[]"]
    by (simp add: n dec_digit_def digits_value_def digit_val_def)
  have e7: "loan_days (JStr ''-abc'') = Num 7"
    using loan_days_cases [where wss = "[]" and sg = "''-''" and rest = "''abc''"]
    by (simp add: dec_digit_def)
  have e8: "loan_days (JStr ''  '') = Num 7"
    using loan_days_cases [where wss = "[[CHR 0x20], [CHR 0x20]]" and sg = "[]" and rest = "[]"]
    by (simp add: white_space_def ws_len_def)
  have e9: "loan_days (JStr ''abc'') = Num 7"
    using loan_days_cases [where wss = "[]" and sg = "[]" and rest = "''abc''"]
    by (simp add: dec_digit_def white_space_def ws_len_def)
  have e10: "loan_days (JStr ''0'') = Num 7"
    using loan_days_cases [where wss = "[]" and sg = "[]" and Z = "''0''" and rest = "[]"]
    by (simp add: dec_digit_def digits_value_def digit_val_def)
  have e11: "loan_days (JNum 0) = Num 7" "loan_days (JNum 14) = Num 14"
    "loan_days (JNum (- 3)) = Num (- 3)"
    using loan_days_cases [where n = 0] loan_days_cases [where n = 14]
      loan_days_cases [where n = "- 3"]
    by simp_all
  show ?thesis
    using e1 e2 e3 e4 e5 e6 e7 e8 e9 e10 e11 by blast
qed

text \<open>
  Claim C3 as stated says that a negative \<^verbatim>\<open>days\<close> gives a loan period of 7 days.
  A negative number is truthy, so \<^verbatim>\<open>||\<close> keeps it.
\<close>

theorem loan_days_negative_counterexample:
  "loan_days (JNum (- 3)) \<noteq> Num 7 \<and> loan_days (JStr ''-3'') \<noteq> Num 7"
proof -
  have d: "dec 3 = ''3''" by code_simp
  have "loan_days (JStr (CHR ''-'' # dec 3)) = Num (- 3)"
    using loan_days_to_number [of "JStr (CHR ''-'' # dec 3)" "- 1" 3]
    by (simp add: parseInt_neg_dec to_number_small)
  then show ?thesis
    using loan_days_JNum [of "- 3"] by (simp add: d)
qed

section \<open>Borrowing and returning\<close>




lemma findOne_updateOne:
  "findOne (updateOne k f c) k' = (if k' = k then map_option f (findOne c k) else findOne c k')"
  by (induction c) (auto simp: findOne_def)

lemma updateOne_absent: "findOne c k = None \<Longrightarrow> updateOne k f c = c"
  by (induction c) (auto simp: findOne_def split: if_splits)

lemma daysLate_div: "daysLate now due = - ((due - now) div 86400000)"
proof -
  have "daysLate now due = \<lceil>(of_int (now - due) :: rat) / of_int 86400000\<rceil>"
    by (simp add: daysLate_def)
  also have "\<dots> = - (- (now - due) div 86400000)"
    by (rule ceiling_divide_eq_div)
  finally show ?thesis by simp
qed

lemma daysLate_real: "daysLate now due = \<lceil>real_of_int (now - due) / 86400000\<rceil>"
proof -
  have "\<lceil>real_of_int (now - due) / real_of_int 86400000\<rceil> = - (- (now - due) div 86400000)"
    by (rule ceiling_divide_eq_div)
  then show ?thesis by (simp add: daysLate_div)
qed

lemma daysLate_unique:
  assumes "(k - 1) * 86400000 < now - due" "now - due \<le> k * 86400000"
  shows "daysLate now due = k"
proof -
  define x where "x = due - now"
  have a: "- k * 86400000 \<le> x" "x < (- k + 1) * 86400000"
    using assms by (simp_all add: x_def algebra_simps)
  have "x div 86400000 = - k"
    by (rule int_div_pos_eq [where r = "x + k * 86400000"]) (use a in \<open>simp_all add: algebra_simps\<close>)
  then show ?thesis by (simp add: daysLate_div x_def)
qed


lemma return_book_borrowed:
  assumes "findOne (Books s) bId = Some b" "status b = Borrowed"
  shows "return_book v bId mId now s =
    (OkFine (compute_fine now (Date_of (dueDate b))),
     s\<lparr>Books := updateOne bId (\<lambda>b. b\<lparr>status := Available, borrowedBy := None, dueDate := None\<rparr>) (Books s),
       Members := updateOne mId
          (\<lambda>m. m\<lparr>borrowedBooks := filter (\<lambda>e. e_bookId e \<noteq> bId) (borrowedBooks m)\<rparr>) (Members s),
       BorrowLogs := update_first
          (\<lambda>l. l_bookId l = bId \<and> l_memberId l = mId \<and> returnedOn l = None)
          (\<lambda>l. l\<lparr>returnedOn := Some now, fine := Some (compute_fine now (Date_of (dueDate b)))\<rparr>)
          (BorrowLogs s)\<rparr>)"
  using assms by (simp add: return_book_def Let_def)

lemma borrow_available:
  assumes "findOne (Books s) bId = Some b" "findOne (Members s) mId = Some m" "status b = Available"
  shows "borrow v bId mId days now s =
    (OkDueDate (due_date now (loan_days days)),
     s\<lparr>Books := updateOne bId
          (\<lambda>b. b\<lparr>status := Borrowed, borrowedBy := Some mId,
                  dueDate := Some (stored_date (due_date now (loan_days days))),
                  borrowCount := borrowCount b + 1\<rparr>) (Books s),
       Members := updateOne mId
          (\<lambda>m. m\<lparr>borrowedBooks := borrowedBooks m
             @ [\<lparr>e_bookId = bId, e_borrowedOn = now,
                 e_dueDate = stored_date (due_date now (loan_days days))\<rparr>]\<rparr>)
          (Members s),
       BorrowLogs := BorrowLogs s
          @ [\<lparr>l_bookId = bId, l_memberId = mId, l_borrowedOn = now,
              l_dueDate = stored_date (due_date now (loan_days days)), returnedOn = None,
              fine = (case v of Enhanced \<Rightarrow> Some 0 | Legacy \<Rightarrow> None)\<rparr>]\<rparr>)"
  using assms by (simp add: borrow_def Let_def)

lemma due_date_Num: "due_date now (Num d) = TimeClip (now + d * 86400000)"
  by (simp add: due_date_def mult.commute)


text \<open>
  Claim C1. A return of a borrowed book whose due date is \<open>due\<close> answers with a fine
  that is 0 when the current time is at or before \<open>due\<close>, and otherwise 5 times the
  ceiling of the lateness over one day (86400000 ms): a lateness of more than \<open>k - 1\<close>
  and at most \<open>k\<close> days costs \<open>5 k\<close>, so a started day counts in full.
\<close>

theorem return_fine:
  assumes "findOne (Books s) bId = Some b" "status b = Borrowed" "dueDate b = Some due"
  shows "\<exists>f. fst (return_book v bId mId now s) = OkFine f
           \<and> (now \<le> due \<longrightarrow> f = 0)
           \<and> (due < now \<longrightarrow> f = \<lceil>real_of_int (now - due) / 86400000\<rceil> * 5)
           \<and> (\<forall>k. (k - 1) * 86400000 < now - due \<and> now - due \<le> k * 86400000 \<and> due < now \<longrightarrow> f = k * 5)"
proof -
  have r: "fst (return_book v bId mId now s) = OkFine (compute_fine now due)"
    using return_book_borrowed [OF assms(1,2)] assms(3) by (simp add: Date_of_def)
  have 1: "now \<le> due \<Longrightarrow> compute_fine now due = 0"
    by (simp add: compute_fine_def)
  have 2: "due < now \<Longrightarrow> compute_fine now due = \<lceil>real_of_int (now - due) / 86400000\<rceil> * 5"
    by (simp add: compute_fine_def daysLate_real)
  have 3: "compute_fine now due = k * 5"
    if "(k - 1) * 86400000 < now - due" "now - due \<le> k * 86400000" "due < now" for k
    using that daysLate_unique [of k now due] by (simp add: compute_fine_def)
  show ?thesis using r 1 2 3 by blast
qed

text \<open>C1 at the due time, one millisecond late, and three days late.\<close>

theorem return_fine_witness:
  "fst (return_book Enhanced ''b1'' ''m1'' 604800000 s_borrowed) = OkFine 0
   \<and> fst (return_book Enhanced ''b1'' ''m1'' 604800001 s_borrowed) = OkFine 5
   \<and> fst (return_book Enhanced ''b1'' ''m1'' (604800000 + 3 * 86400000) s_borrowed) = OkFine 15"
proof -
  let ?b = "bk0\<lparr>status := Borrowed, borrowedBy := Some ''m1'', dueDate := Some 604800000, borrowCount := 1\<rparr>"
  have h: "findOne (Books s_borrowed) ''b1'' = Some ?b" "status ?b = Borrowed" "dueDate ?b = Some 604800000"
    by (simp_all add: s_borrowed_def findOne_def)
  show ?thesis
    using return_fine [OF h, of Enhanced "''m1''" 604800000]
      return_fine [OF h, of Enhanced "''m1''" 604800001]
      return_fine [OF h, of Enhanced "''m1''" "604800000 + 3 * 86400000"]
    by auto
qed





text \<open>
  Claim C4, as the code has it. A borrow of a book that is already borrowed fails and
  leaves the three collections as they were. The error is the conflict (status 400) when
  the member exists, and "not found" (status 404) when the member does not: the handler
  tests that both records exist before it looks at the book's status.
\<close>

theorem borrow_borrowed:
  assumes "findOne (Books s) bId = Some b" "status b = Borrowed"
  shows "borrow v bId mId days now s =
     (if findOne (Members s) mId = None then SendError 404 ''Book or member not found''
      else SendError 400 (already_borrowed_msg v), s)"
  using assms by (simp add: borrow_def Let_def split: option.splits)

text \<open>C4 with an existing member, and with an unknown one.\<close>

theorem borrow_borrowed_witness:
  "borrow Enhanced ''b1'' ''m2'' (JNum 7) 5000 s_borrowed
     = (SendError 400 ''Book is already borrowed'', s_borrowed)
   \<and> borrow Legacy ''b1'' ''m9'' (JNum 7) 5000 s_borrowed
     = (SendError 404 ''Book or member not found'', s_borrowed)"
proof -
  let ?b = "bk0\<lparr>status := Borrowed, borrowedBy := Some ''m1'', dueDate := Some 604800000, borrowCount := 1\<rparr>"
  have h: "findOne (Books s_borrowed) ''b1'' = Some ?b" "status ?b = Borrowed"
    by (simp_all add: s_borrowed_def findOne_def)
  have m: "findOne (Members s_borrowed) ''m2'' \<noteq> None" "findOne (Members s_borrowed) ''m9'' = None"
    by (simp_all add: s_borrowed_def findOne_def)
  show ?thesis
    using borrow_borrowed [OF h, of Enhanced "''m2''" "JNum 7" 5000]
      borrow_borrowed [OF h, of Legacy "''m9''" "JNum 7" 5000] m
    by (simp add: already_borrowed_msg_def)
qed

text \<open>
  Claim C4 as stated says the failure is always the conflict. With a borrowed book and
  a member identifier that resolves to no member, the answer is 404.
\<close>

theorem borrow_borrowed_counterexample:
  "status (the (findOne (Books s_no_member) ''b1'')) = Borrowed
   \<and> borrow Enhanced ''b1'' ''m1'' (JNum 7) 5000 s_no_member
       = (SendError 404 ''Book or member not found'', s_no_member)
   \<and> fst (borrow Enhanced ''b1'' ''m1'' (JNum 7) 5000 s_no_member)
       \<noteq> SendError 400 (already_borrowed_msg Enhanced)"
  by (simp add: s_no_member_def s_borrowed_def findOne_def borrow_def)

text \<open>
  Claim C5. Borrowing an available book and then returning it leaves the book
  available with no borrower and no due date, its borrow count one higher than before
  the borrow, and every other field as it was; when the book had no borrower and no due
  date before (as the invariant of an available book says), it is the book from before
  the borrow with only the borrow count changed.
\<close>

theorem borrow_return_roundtrip:
  assumes "findOne (Books s) bId = Some b" "status b = Available"
    and "findOne (Members s) mId = Some m"
    and "borrow v bId mId days now s = (r1, s1)"
    and "return_book v bId mId now' s1 = (r2, s2)"
  shows "(\<exists>due. r1 = OkDueDate due) \<and> (\<exists>f. r2 = OkFine f)
    \<and> findOne (Books s2) bId = Some (b\<lparr>status := Available, borrowedBy := None, dueDate := None,
          borrowCount := borrowCount b + 1\<rparr>)
    \<and> (borrowedBy b = None \<and> dueDate b = None
         \<longrightarrow> findOne (Books s2) bId = Some (b\<lparr>borrowCount := borrowCount b + 1\<rparr>))"
proof -
  let ?due = "due_date now (loan_days days)"
  let ?b1 = "b\<lparr>status := Borrowed, borrowedBy := Some mId, dueDate := Some (stored_date ?due),
          borrowCount := borrowCount b + 1\<rparr>"
  have e: "(r1, s1) = borrow v bId mId days now s" using assms(4) by simp
  have b: "r1 = OkDueDate ?due" "findOne (Books s1) bId = Some ?b1"
    using e assms(1) unfolding borrow_available [OF assms(1,3,2)]
    by (simp_all add: findOne_updateOne)
  have st: "status ?b1 = Borrowed" by simp
  have r: "return_book v bId mId now' s1 = (r2, s2)" by (rule assms(5))
  have r2: "r2 = OkFine (compute_fine now' (Date_of (dueDate ?b1)))"
    using r unfolding return_book_borrowed [OF b(2) st] by simp
  have s2: "findOne (Books s2) bId = Some (?b1\<lparr>status := Available, borrowedBy := None, dueDate := None\<rparr>)"
    using r b(2) unfolding return_book_borrowed [OF b(2) st]
    by (auto simp: findOne_updateOne)
  have s2': "findOne (Books s2) bId = Some (b\<lparr>status := Available, borrowedBy := None,
          dueDate := None, borrowCount := borrowCount b + 1\<rparr>)"
    using s2 by simp
  have same: "findOne (Books s2) bId = Some (b\<lparr>borrowCount := borrowCount b + 1\<rparr>)"
    if "borrowedBy b = None \<and> dueDate b = None"
    using s2 that assms(2) by (cases b) simp
  show ?thesis using b(1) r2 s2' same by blast
qed


text \<open>C5 on the catalog of one book.\<close>

theorem borrow_return_roundtrip_witness:
  "findOne (Books (snd (return_book Enhanced ''b1'' ''m1'' 9000
       (snd (borrow Enhanced ''b1'' ''m1'' (JNum 7) 1000 s_avail))))) ''b1''
     = Some (bk0\<lparr>borrowCount := 1\<rparr>)"
proof -
  have h: "findOne (Books s_avail) ''b1'' = Some bk0" "status bk0 = Available"
    "findOne (Members s_avail) ''m1'' = Some mem0"
    by (simp_all add: s_avail_def findOne_def bk0_def)
  have n: "borrowedBy bk0 = None \<and> dueDate bk0 = None" "borrowCount bk0 = 0"
    by (simp_all add: bk0_def)
  let ?s1 = "snd (borrow Enhanced ''b1'' ''m1'' (JNum 7) 1000 s_avail)"
  have e1: "borrow Enhanced ''b1'' ''m1'' (JNum 7) 1000 s_avail
      = (fst (borrow Enhanced ''b1'' ''m1'' (JNum 7) 1000 s_avail), ?s1)"
    by simp
  have e2: "return_book Enhanced ''b1'' ''m1'' 9000 ?s1
      = (fst (return_book Enhanced ''b1'' ''m1'' 9000 ?s1), snd (return_book Enhanced ''b1'' ''m1'' 9000 ?s1))"
    by simp
  from borrow_return_roundtrip [OF h e1 e2] n(1)
  have "findOne (Books (snd (return_book Enhanced ''b1'' ''m1'' 9000 ?s1))) ''b1''
      = Some (bk0\<lparr>borrowCount := borrowCount bk0 + 1\<rparr>)"
    by blast
  then show ?thesis by (simp add: n(2))
qed

text \<open>
  Claim C10. A return of a borrowed book succeeds for every member identifier \<open>m\<close>,
  whatever the book's \<^verbatim>\<open>borrowedBy\<close> holds: the book becomes available, the entries
  for this book are removed from the list of member \<open>m\<close> (if there is such a member), and
  every other member, the borrower included, keeps its list.
\<close>

theorem return_any_member:
  assumes "findOne (Books s) bId = Some b" "status b = Borrowed"
    and "return_book v bId m now s = (r, s')"
  shows "(\<exists>f. r = OkFine f)
    \<and> findOne (Books s') bId = Some (b\<lparr>status := Available, borrowedBy := None, dueDate := None\<rparr>)
    \<and> findOne (Members s') m
        = map_option (\<lambda>x. x\<lparr>borrowedBooks := filter (\<lambda>e. e_bookId e \<noteq> bId) (borrowedBooks x)\<rparr>)
            (findOne (Members s) m)
    \<and> (\<forall>k. k \<noteq> m \<longrightarrow> findOne (Members s') k = findOne (Members s) k)"
proof -
  have e: "(r, s') = return_book v bId m now s" using assms(3) by simp
  show ?thesis
    using e assms(1) unfolding return_book_borrowed [OF assms(1,2)]
    by (simp add: findOne_updateOne)
qed

text \<open>
  C10 where member \<^verbatim>\<open>m1\<close> holds the book and \<^verbatim>\<open>m2\<close> returns it: the return succeeds
  and \<^verbatim>\<open>m1\<close> keeps the entry.
\<close>

theorem return_any_member_witness:
  "borrowedBy (the (findOne (Books s_borrowed) ''b1'')) = Some ''m1''
   \<and> fst (return_book Enhanced ''b1'' ''m2'' 5000 s_borrowed) = OkFine 0
   \<and> status (the (findOne (Books (snd (return_book Enhanced ''b1'' ''m2'' 5000 s_borrowed))) ''b1'')) = Available
   \<and> findOne (Members (snd (return_book Enhanced ''b1'' ''m2'' 5000 s_borrowed))) ''m1''
       = findOne (Members s_borrowed) ''m1''
   \<and> map e_bookId (borrowedBooks (the (findOne (Members (snd (return_book Enhanced ''b1'' ''m2'' 5000 s_borrowed))) ''m1'')))
       = [''b1'']"
proof -
  let ?b = "bk0\<lparr>status := Borrowed, borrowedBy := Some ''m1'', dueDate := Some 604800000, borrowCount := 1\<rparr>"
  have h: "findOne (Books s_borrowed) ''b1'' = Some ?b" "status ?b = Borrowed"
    by (simp_all add: s_borrowed_def findOne_def)
  have f: "fst (return_book Enhanced ''b1'' ''m2'' 5000 s_borrowed) = OkFine 0"
    by (simp add: return_book_def s_borrowed_def findOne_def Date_of_def compute_fine_def)
  have e: "return_book Enhanced ''b1'' ''m2'' 5000 s_borrowed
      = (fst (return_book Enhanced ''b1'' ''m2'' 5000 s_borrowed),
         snd (return_book Enhanced ''b1'' ''m2'' 5000 s_borrowed))"
    by simp
  have m1: "findOne (Members s_borrowed) ''m1''
     = Some (mem0\<lparr>borrowedBooks := [\<lparr>e_bookId = ''b1'', e_borrowedOn = 0, e_dueDate = 604800000\<rparr>]\<rparr>)"
    by (simp add: s_borrowed_def findOne_def)
  show ?thesis
    using return_any_member [OF h e] h(1) f m1
    by simp
qed

section \<open>Catalog update and member creation\<close>


lemma set_field_frame:
  "status (set_field kv b) = status b" "borrowedBy (set_field kv b) = borrowedBy b"
  "dueDate (set_field kv b) = dueDate b" "borrowCount (set_field kv b) = borrowCount b"
  "createdAt (set_field kv b) = createdAt b"
  by (cases kv; simp)+

lemma set_fields_frame:
  "status (set_fields u b) = status b \<and> borrowedBy (set_fields u b) = borrowedBy b
   \<and> dueDate (set_fields u b) = dueDate b \<and> borrowCount (set_fields u b) = borrowCount b"
  unfolding set_fields_def by (induction u arbitrary: b) (simp_all add: set_field_frame)

lemma req_title_fields:
  "req_title ''title'' = JStr ''Dune Messiah''" "req_title ''author'' = JUndefined"
  "req_title ''genre'' = JUndefined" "req_title ''year'' = JUndefined"
  "req_title ''isbn'' = JUndefined" "req_title ''cover'' = JUndefined"
  by (simp_all add: req_title_def)

text \<open>
  Claim C6 at a request that names only the title, on a stored book with a year and an
  ISBN. Both servers build \<^verbatim>\<open>isbn: data.isbn || null\<close> (the current one also
  \<^verbatim>\<open>year: parseInt(data.year) || null\<close>), which is \<^verbatim>\<open>null\<close>, not \<^verbatim>\<open>undefined\<close>, for an
  absent field; it passes the removal of undefined fields and overwrites the stored
  value. The older server also answers success for an identifier that resolves to no
  book.
\<close>

theorem put_books_clobbers_isbn_year:
  "findOne (Books s_dune) ''b1'' = Some (bk0\<lparr>year := JNum 1965, isbn := JStr ''9780441172719''\<rparr>)
   \<and> put_books Enhanced (Some ''b1'') req_title 5000 s_dune
      = (OkMsg ''Book updated successfully'',
         s_dune\<lparr>Books := [(''b1'', bk0\<lparr>title := JStr ''Dune Messiah'', year := JNull, isbn := JNull,
                                        updatedAt := Some 5000\<rparr>)]\<rparr>)
   \<and> put_books Legacy (Some ''b1'') req_title 5000 s_dune
      = (Plain 200 ''success'',
         s_dune\<lparr>Books := [(''b1'', bk0\<lparr>title := JStr ''Dune Messiah'', year := JNum 1965, isbn := JNull\<rparr>)]\<rparr>)
   \<and> put_books Legacy (Some ''b9'') req_title 5000 s_dune = (Plain 200 ''success'', s_dune)"
  by (simp add: s_dune_def findOne_def req_title_fields set_fields_def js_or_def
      parseInt_or_null_def parseInt_undefined bk0_def)


lemma parseInt_or_null_defined: "parseInt_or_null x \<noteq> JUndefined"
  by (simp add: parseInt_or_null_def split: number.splits)

lemma js_or_null_defined: "js_or x JNull \<noteq> JUndefined"
  by (cases x) (simp_all add: js_or_def)

lemma truthy_defined: "truthy x \<Longrightarrow> x \<noteq> JUndefined"
  by (cases x) simp_all

text \<open>
  What the current server does keep of the update contract: an unknown identifier is
  answered with 404 and nothing changes; the fields \<^verbatim>\<open>title\<close>, \<^verbatim>\<open>author\<close>, \<^verbatim>\<open>genre\<close> and
  \<^verbatim>\<open>cover\<close> keep their value when the request leaves them out, and the loan fields are
  never touched.
\<close>

lemma put_books_not_found:
  assumes "findOne (Books s) i = None"
  shows "put_books Enhanced (Some i) data now s = (SendError 404 ''Book not found'', s)"
  using assms by (simp add: updateOne_absent)

lemma put_books_keeps_absent:
  assumes "findOne (Books s) i = Some b"
    and "put_books Enhanced (Some i) data now s = (r, s')"
  shows "\<exists>b'. findOne (Books s') i = Some b'
      \<and> (data ''title'' = JUndefined \<longrightarrow> title b' = title b)
      \<and> (data ''author'' = JUndefined \<longrightarrow> author b' = author b)
      \<and> (data ''genre'' = JUndefined \<longrightarrow> genre b' = genre b)
      \<and> (\<not> truthy (data ''cover'') \<longrightarrow> cover b' = cover b)
      \<and> status b' = status b \<and> borrowedBy b' = borrowedBy b \<and> dueDate b' = dueDate b
      \<and> borrowCount b' = borrowCount b \<and> createdAt b' = createdAt b"
proof -
  let ?b' = "(set_fields (put_update Enhanced data) b)\<lparr>updatedAt := Some now\<rparr>"
  have "findOne (Books s') i = Some ?b'"
    using assms by (auto simp: Let_def findOne_updateOne)
  moreover have "data ''title'' = JUndefined \<Longrightarrow> title ?b' = title b"
    by (simp add: set_fields_def parseInt_or_null_defined js_or_null_defined truthy_defined)
  moreover have "data ''author'' = JUndefined \<Longrightarrow> author ?b' = author b"
    by (simp add: set_fields_def parseInt_or_null_defined js_or_null_defined truthy_defined)
  moreover have "data ''genre'' = JUndefined \<Longrightarrow> genre ?b' = genre b"
    by (simp add: set_fields_def parseInt_or_null_defined js_or_null_defined truthy_defined)
  moreover have "\<not> truthy (data ''cover'') \<Longrightarrow> cover ?b' = cover b"
    by (simp add: set_fields_def parseInt_or_null_defined js_or_null_defined truthy_defined)
  moreover have "status ?b' = status b \<and> borrowedBy ?b' = borrowedBy b \<and> dueDate ?b' = dueDate b
      \<and> borrowCount ?b' = borrowCount b"
    using set_fields_frame [of "put_update Enhanced data" b] by simp
  moreover have "createdAt ?b' = createdAt b"
    by (simp add: set_fields_def parseInt_or_null_defined js_or_null_defined truthy_defined)
  ultimately show ?thesis by blast
qed

lemma findOne_email_None: "findOne_email c e = None \<longleftrightarrow> (\<forall>(i, m) \<in> set c. email m \<noteq> e)"
  by (auto simp: findOne_email_def find_None_iff)

text \<open>
  The current server's \<^verbatim>\<open>POST /members\<close> in full: a missing name or email is an error,
  an email already registered is an error, and neither inserts a member.
\<close>

lemma post_members_enhanced:
  "post_members Enhanced data now newId s =
     (if \<not> truthy (data ''name'') \<or> \<not> truthy (data ''email'')
      then (SendError 400 ''Name and email are required'', s)
      else if \<exists>(i, m) \<in> set (Members s). email m = data ''email''
      then (SendError 400 ''Member with this email already exists'', s)
      else (Created newId, s\<lparr>Members := Members s @ [(newId,
              \<lparr>name = data ''name'', email = data ''email'',
               role = (if truthy (data ''role'') then data ''role'' else JStr ''student''),
               borrowedBooks = [], m_createdAt = now\<rparr>)]\<rparr>))"
  using findOne_email_None [of "Members s" "data ''email''"]
  by (auto simp: insertOne_def js_or_def)

text \<open>
  Claim C9 at a request that repeats the email of an existing member, and at an empty
  request. The older server inserts the member in both cases; the current server rejects
  the duplicate.
\<close>

theorem post_members_legacy_duplicate:
  "findOne_email (Members s_avail) (JStr ''a@x.com'') = Some (''m1'', mem0)
   \<and> post_members Legacy req_alice 5000 ''m3'' s_avail
      = (Created ''m3'', s_avail\<lparr>Members := Members s_avail @ [(''m3'',
           \<lparr>name = JStr ''Alice B'', email = JStr ''a@x.com'', role = JStr ''student'',
            borrowedBooks = [], m_createdAt = 5000\<rparr>)]\<rparr>)
   \<and> post_members Legacy (\<lambda>k. JUndefined) 5000 ''m3'' s_avail
      = (Created ''m3'', s_avail\<lparr>Members := Members s_avail @ [(''m3'',
           \<lparr>name = JNull, email = JNull, role = JStr ''student'',
            borrowedBooks = [], m_createdAt = 5000\<rparr>)]\<rparr>)
   \<and> post_members Enhanced req_alice 5000 ''m3'' s_avail
      = (SendError 400 ''Member with this email already exists'', s_avail)"
  by (simp add: s_avail_def findOne_email_def mem0_def req_alice_def insertOne_def js_or_def bson_def)

section \<open>The invariant of a book record\<close>


lemma book_inv_set_fields: "book_inv (set_fields u b) = book_inv b"
  using set_fields_frame [of u b] by (simp add: book_inv_def)

lemma list_all_updateOne:
  assumes "list_all (\<lambda>(i, b). P b) c" "\<And>b. P b \<Longrightarrow> P (f b)"
  shows "list_all (\<lambda>(i, b). P b) (updateOne k f c)"
  using assms by (induction c) auto

lemma list_all_deleteOne:
  "list_all (\<lambda>(i, b). P b) c \<Longrightarrow> list_all (\<lambda>(i, b). P b) (deleteOne k c)"
  by (induction c) auto

lemma books_ok_post_books: "books_ok s \<Longrightarrow> books_ok (snd (post_books v data now now' newId s))"
  by (cases v) (simp_all add: books_ok_def insertOne_def book_inv_def Let_def)

lemma books_ok_put_books: "books_ok s \<Longrightarrow> books_ok (snd (put_books v i data now s))"
proof (cases v)
  case Enhanced
  assume ok: "books_ok s"
  show ?thesis
  proof (cases i)
    case None
    with ok Enhanced show ?thesis by simp
  next
    case (Some k)
    have "list_all (\<lambda>(i, b). book_inv b)
        (updateOne k (\<lambda>b. (set_fields (put_update Enhanced data) b)\<lparr>updatedAt := Some now\<rparr>) (Books s))"
      using ok unfolding books_ok_def
      by (rule list_all_updateOne) (use set_fields_frame in \<open>simp add: book_inv_def\<close>)
    then show ?thesis using Some Enhanced by (simp add: books_ok_def Let_def)
  qed
next
  case Legacy
  assume ok: "books_ok s"
  show ?thesis
  proof (cases i)
    case None
    with ok Legacy show ?thesis by simp
  next
    case (Some k)
    have "list_all (\<lambda>(i, b). book_inv b) (updateOne k (set_fields (put_update Legacy data)) (Books s))"
      using ok unfolding books_ok_def
      by (rule list_all_updateOne) (simp add: book_inv_set_fields)
    then show ?thesis using Some Legacy by (simp add: books_ok_def)
  qed
qed

lemma books_ok_delete_books: "books_ok s \<Longrightarrow> books_ok (snd (delete_books v i s))"
  by (cases v; cases i) (simp_all add: books_ok_def list_all_deleteOne)

lemma books_ok_post_members: "books_ok s \<Longrightarrow> books_ok (snd (post_members v data now newId s))"
  by (cases v) (simp_all add: books_ok_def Let_def)

lemma books_ok_borrow: "books_ok s \<Longrightarrow> books_ok (snd (borrow v bId mId days now s))"
proof -
  assume ok: "books_ok s"
  have u: "list_all (\<lambda>(i, b). book_inv b) (updateOne bId
      (\<lambda>b. b\<lparr>status := Borrowed, borrowedBy := Some mId, dueDate := Some due,
              borrowCount := borrowCount b + 1\<rparr>) (Books s))" for due
    using ok unfolding books_ok_def
    by (rule list_all_updateOne) (simp add: book_inv_def)
  show ?thesis
    using ok u by (simp add: borrow_def Let_def books_ok_def split: option.splits)
qed

lemma books_ok_return_book: "books_ok s \<Longrightarrow> books_ok (snd (return_book v bId mId now s))"
proof -
  assume ok: "books_ok s"
  have u: "list_all (\<lambda>(i, b). book_inv b) (updateOne bId
      (\<lambda>b. b\<lparr>status := Available, borrowedBy := None, dueDate := None\<rparr>) (Books s))"
    using ok unfolding books_ok_def
    by (rule list_all_updateOne) (simp add: book_inv_def)
  show ?thesis
    using ok u by (simp add: return_book_def Let_def books_ok_def split: option.splits)
qed

lemma books_ok_handle: "books_ok s \<Longrightarrow> books_ok (snd (handle v r s))"
  by (cases r) (simp_all add: books_ok_post_books books_ok_put_books books_ok_delete_books
      books_ok_post_members books_ok_borrow books_ok_return_book)

lemma books_ok_run: "books_ok s \<Longrightarrow> books_ok (run v rs s)"
  by (induction rs arbitrary: s) (simp_all add: books_ok_handle)

text \<open>
  Claim C8. Every book record reached from the empty database by any sequence of
  requests satisfies the invariant: it is borrowed exactly when it has both a borrower
  and a due date, and available exactly when it has neither. Each request keeps the
  invariant of every book, in both server copies.
\<close>

theorem book_invariant:
  "books_ok (run v rs empty_db) \<and> (books_ok s \<longrightarrow> books_ok (snd (handle v r s)))"
  using books_ok_run [of empty_db v rs] books_ok_handle [of s v r]
  by (simp add: books_ok_def empty_db_def)

lemma run_scenario:
  "Books (run Enhanced scenario empty_db)
     = [(''b1'', bk0\<lparr>status := Borrowed, borrowedBy := Some ''m1'', dueDate := Some 604801000,
                     borrowCount := 1\<rparr>)]"
  by (simp add: scenario_def empty_db_def req_dune_def req_alice_def insertOne_def js_or_def
      parseInt_or_null_def findOne_email_def borrow_def findOne_def loan_days_JNum bk0_def
      parseInt_undefined due_date_Num TimeClip_def stored_date_def Let_def)

text \<open>C8 after creating a book and a member and borrowing the book, and after a return.\<close>

theorem book_invariant_witness:
  "Books (run Enhanced scenario empty_db)
     = [(''b1'', bk0\<lparr>status := Borrowed, borrowedBy := Some ''m1'', dueDate := Some 604801000,
                     borrowCount := 1\<rparr>)]
   \<and> books_ok (run Enhanced scenario empty_db)
   \<and> books_ok s_borrowed
   \<and> books_ok (snd (handle Enhanced (POST_return ''b1'' ''m1'' 5000) s_borrowed))"
proof -
  have ok: "books_ok s_borrowed"
    by (simp add: books_ok_def s_borrowed_def book_inv_def)
  show ?thesis
    using book_invariant [of Enhanced scenario s_borrowed "POST_return ''b1'' ''m1'' 5000"]
      run_scenario ok
    by blast
qed

section \<open>The most-borrowed report\<close>

text \<open>
  Whatever order the database gives to books with equal counts, the report has
  \<open>min 10 n\<close> of the \<open>n\<close> books of the catalog, in non-increasing order of \<^verbatim>\<open>borrowCount\<close>.
  Whether books with equal counts come in insertion order is the database's matter and
  is not settled here; they do when it keeps them in that order.
\<close>

lemma desc_of_sorted_key:
  "sorted (map (\<lambda>(i, b). - int (borrowCount b)) ys) \<Longrightarrow> desc_borrowCount ys"
  unfolding desc_borrowCount_def sorted_map
  by (rule sorted_wrt_mono_rel [rotated]) (auto simp: case_prod_beta)

lemma most_borrowed_sorted:
  assumes "mset (ties (Books s)) = mset (Books s)"
  shows "length (most_borrowed ties s) = min 10 (length (Books s))
    \<and> desc_borrowCount (most_borrowed ties s)
    \<and> set (most_borrowed ties s) \<subseteq> set (Books s)"
proof -
  let ?srt = "sort_key (\<lambda>(i, b). - int (borrowCount b)) (ties (Books s))"
  have len: "length (ties (Books s)) = length (Books s)"
    using assms by (rule mset_eq_length)
  have 1: "length (most_borrowed ties s) = min 10 (length (Books s))"
    by (simp add: most_borrowed_def len min.commute)
  have "desc_borrowCount ?srt"
    by (rule desc_of_sorted_key) simp
  then have 2: "desc_borrowCount (most_borrowed ties s)"
    by (simp add: most_borrowed_def desc_borrowCount_def sorted_wrt_take)
  have 3: "set (most_borrowed ties s) \<subseteq> set (Books s)"
    using set_take_subset [of 10 ?srt] mset_eq_setD [OF assms] by (simp add: most_borrowed_def)
  show ?thesis using 1 2 3 by blast
qed

lemma most_borrowed_insertion_order:
  "prefix (filter (\<lambda>x. borrowCount (snd x) = k) (most_borrowed (\<lambda>xs. xs) s))
          (filter (\<lambda>x. borrowCount (snd x) = k) (Books s))"
proof -
  let ?f = "\<lambda>(i, b). - int (borrowCount b)" and ?xs = "Books s"
  have eq: "(\<lambda>x. borrowCount (snd x) = k) = (\<lambda>x::oid \<times> book. ?f x = - int k)"
    by auto
  have "filter (\<lambda>x. borrowCount (snd x) = k) (sort_key ?f ?xs)
      = filter (\<lambda>x. borrowCount (snd x) = k) ?xs"
    unfolding eq by (rule sort_key_stable)
  moreover have "prefix (filter (\<lambda>x. borrowCount (snd x) = k) (take 10 (sort_key ?f ?xs)))
      (filter (\<lambda>x. borrowCount (snd x) = k) (sort_key ?f ?xs))"
    by (rule filter_mono_prefix) (rule take_is_prefix)
  ultimately show ?thesis by (simp add: most_borrowed_def)
qed

end
